theory Spec2Isabelle
  imports Main "HOL-Library.Word"
begin

unbundle bit_operations_syntax

section \<open>Bytes, errors and the runtime primitives the codec calls\<close>

text \<open>
  A Python \<open>bytes\<close> object is a sequence of integers in \<open>range(256)\<close>: a list of 8-bit
  words. Python's \<open>int\<close> is unbounded: \<open>int\<close>. A Python \<open>str\<close> is a sequence of Unicode
  code points: a list of naturals.
\<close>

type_synonym byte = "8 word"
type_synonym str = "nat list"

text \<open>
  The \<open>endian\<close> argument of every constructor is the byte-order prefix of a \<open>struct\<close>
  format: \<open>"<"\<close> (the default) is \<open>Little\<close>, \<open>">"\<close> is \<open>Big\<close>.
\<close>

datatype endian = Little | Big

text \<open>
  The format characters the source appends to the prefix:
  \<open>b h i q\<close> (signed, 1 2 4 8 bytes) and \<open>B H I Q\<close> (unsigned).
\<close>

datatype fmt = Fmt_b | Fmt_h | Fmt_i | Fmt_q | Fmt_B | Fmt_H | Fmt_I | Fmt_Q

text \<open>
  The exceptions of the source, as values. The source raises no exception of its own;
  all of them come from the runtime:
  \<^item> \<open>Underflow\<close>: the \<open>struct.error\<close> of \<open>unpack\<close> on a buffer whose length is not the
    size of the format;
  \<^item> \<open>RangeError\<close>: the \<open>struct.error\<close> of \<open>pack\<close> on an integer outside the format's range;
  \<^item> \<open>DecodeError\<close>: the \<open>UnicodeDecodeError\<close> of \<open>bytes.decode('utf-8')\<close>;
  \<^item> \<open>EncodeError\<close>: the \<open>UnicodeEncodeError\<close> of \<open>str.encode('utf-8')\<close>;
  \<^item> \<open>ValueError\<close>: the \<open>ValueError\<close> of \<open>bytes(...)\<close> on an integer outside
    \<open>range(256)\<close>, and of a stream's \<open>seek\<close> to a negative position.
\<close>

datatype error = Underflow | RangeError | DecodeError | EncodeError | ValueError

subsection \<open>struct.pack and struct.unpack\<close>

fun fmt_size :: "fmt \<Rightarrow> nat" where
  "fmt_size Fmt_b = 1"
| "fmt_size Fmt_h = 2"
| "fmt_size Fmt_i = 4"
| "fmt_size Fmt_q = 8"
| "fmt_size Fmt_B = 1"
| "fmt_size Fmt_H = 2"
| "fmt_size Fmt_I = 4"
| "fmt_size Fmt_Q = 8"

fun fmt_signed :: "fmt \<Rightarrow> bool" where
  "fmt_signed Fmt_b = True"
| "fmt_signed Fmt_h = True"
| "fmt_signed Fmt_i = True"
| "fmt_signed Fmt_q = True"
| "fmt_signed Fmt_B = False"
| "fmt_signed Fmt_H = False"
| "fmt_signed Fmt_I = False"
| "fmt_signed Fmt_Q = False"

definition fmt_min :: "fmt \<Rightarrow> int" where
  "fmt_min f = (if fmt_signed f then - (2 ^ (8 * fmt_size f - 1)) else 0)"

definition fmt_max :: "fmt \<Rightarrow> int" where
  "fmt_max f = (if fmt_signed f then 2 ^ (8 * fmt_size f - 1) - 1 else 2 ^ (8 * fmt_size f) - 1)"

definition in_range :: "fmt \<Rightarrow> int \<Rightarrow> bool" where
  "in_range f v = (fmt_min f \<le> v \<and> v \<le> fmt_max f)"

text \<open>The \<open>n\<close> low bytes of an integer in two's complement, least significant first.\<close>

fun le_bytes :: "nat \<Rightarrow> int \<Rightarrow> byte list" where
  "le_bytes 0 v = []"
| "le_bytes (Suc n) v = word_of_int v # le_bytes n (v div 256)"

text \<open>The unsigned value of a byte sequence, least significant byte first.\<close>

fun le_value :: "byte list \<Rightarrow> int" where
  "le_value [] = 0"
| "le_value (b # bs) = uint b + 256 * le_value bs"

definition pack :: "endian \<Rightarrow> fmt \<Rightarrow> int \<Rightarrow> error + byte list" where
  "pack e f v =
     (if in_range f v
      then Inr (case e of Little \<Rightarrow> le_bytes (fmt_size f) v
                        | Big \<Rightarrow> rev (le_bytes (fmt_size f) v))
      else Inl RangeError)"

definition unpack :: "endian \<Rightarrow> fmt \<Rightarrow> byte list \<Rightarrow> error + int" where
  "unpack e f buf =
     (if length buf \<noteq> fmt_size f then Inl Underflow
      else let u = le_value (case e of Little \<Rightarrow> buf | Big \<Rightarrow> rev buf)
           in Inr (if fmt_signed f \<and> 2 ^ (8 * fmt_size f - 1) \<le> u
                   then u - 2 ^ (8 * fmt_size f) else u))"

subsection \<open>Slicing\<close>

text \<open>
  \<open>xs[a:b]\<close>: a negative index counts from the end, and both indices are clamped to
  \<open>0..len(xs)\<close>; the slice is empty when the start is not before the stop. A slice never
  raises.
\<close>

definition py_index :: "nat \<Rightarrow> int \<Rightarrow> nat" where
  "py_index n i = (if i < 0 then nat (max (i + int n) 0) else min (nat i) n)"

definition py_slice :: "'a list \<Rightarrow> int \<Rightarrow> int \<Rightarrow> 'a list" where
  "py_slice xs a b =
     (let s = py_index (length xs) a; e = py_index (length xs) b
      in take (e - s) (drop s xs))"

subsection \<open>UTF-8\<close>

definition is_surrogate :: "nat \<Rightarrow> bool" where
  "is_surrogate c = (0xD800 \<le> c \<and> c \<le> 0xDFFF)"

definition encode_cp :: "nat \<Rightarrow> byte list" where
  "encode_cp c =
     (if c < 0x80 then [of_nat c]
      else if c < 0x800 then [of_nat (0xC0 + c div 0x40), of_nat (0x80 + c mod 0x40)]
      else if c < 0x10000 then
        [of_nat (0xE0 + c div 0x1000), of_nat (0x80 + c div 0x40 mod 0x40),
         of_nat (0x80 + c mod 0x40)]
      else
        [of_nat (0xF0 + c div 0x40000), of_nat (0x80 + c div 0x1000 mod 0x40),
         of_nat (0x80 + c div 0x40 mod 0x40), of_nat (0x80 + c mod 0x40)])"

text \<open>
  \<open>s.encode('utf-8')\<close>: a lone surrogate raises. A code point above \<open>0x10FFFF\<close> cannot
  occur in a \<open>str\<close>; the model refuses it too.
\<close>

fun utf8_encode :: "str \<Rightarrow> error + byte list" where
  "utf8_encode [] = Inr []"
| "utf8_encode (c # cs) =
     (if is_surrogate c \<or> 0x10FFFF < c then Inl EncodeError
      else case utf8_encode cs of
             Inl e \<Rightarrow> Inl e
           | Inr bs \<Rightarrow> Inr (encode_cp c @ bs))"

definition is_cont :: "byte \<Rightarrow> bool" where
  "is_cont b = (0x80 \<le> unat b \<and> unat b < 0xC0)"

definition cont_bits :: "byte \<Rightarrow> nat" where
  "cont_bits b = unat b - 0x80"

definition decoded :: "nat \<Rightarrow> error + str \<Rightarrow> error + str" where
  "decoded c r = (case r of Inl e \<Rightarrow> Inl e | Inr cs \<Rightarrow> Inr (c # cs))"

text \<open>
  \<open>bs.decode('utf-8')\<close>, strict: a stray continuation byte, a truncated sequence, an
  overlong form, an encoded surrogate and a value above \<open>0x10FFFF\<close> all raise.
\<close>

fun utf8_decode :: "byte list \<Rightarrow> error + str" where
  "utf8_decode [] = Inr []"
| "utf8_decode (b0 # bs) =
     (if unat b0 < 0x80 then decoded (unat b0) (utf8_decode bs)
      else if unat b0 < 0xC0 then Inl DecodeError
      else if unat b0 < 0xE0 then
        (case bs of
           b1 # r \<Rightarrow>
             (let c = (unat b0 - 0xC0) * 0x40 + cont_bits b1
              in if is_cont b1 \<and> 0x80 \<le> c then decoded c (utf8_decode r)
                 else Inl DecodeError)
         | _ \<Rightarrow> Inl DecodeError)
      else if unat b0 < 0xF0 then
        (case bs of
           b1 # b2 # r \<Rightarrow>
             (let c = (unat b0 - 0xE0) * 0x1000 + cont_bits b1 * 0x40 + cont_bits b2
              in if is_cont b1 \<and> is_cont b2 \<and> 0x800 \<le> c \<and> \<not> is_surrogate c
                 then decoded c (utf8_decode r)
                 else Inl DecodeError)
         | _ \<Rightarrow> Inl DecodeError)
      else if unat b0 < 0xF8 then
        (case bs of
           b1 # b2 # b3 # r \<Rightarrow>
             (let c = (unat b0 - 0xF0) * 0x40000 + cont_bits b1 * 0x1000
                      + cont_bits b2 * 0x40 + cont_bits b3
              in if is_cont b1 \<and> is_cont b2 \<and> is_cont b3
                    \<and> 0x10000 \<le> c \<and> c \<le> 0x10FFFF
                 then decoded c (utf8_decode r)
                 else Inl DecodeError)
         | _ \<Rightarrow> Inl DecodeError)
      else Inl DecodeError)"

section \<open>MemoryReader\<close>

record MemoryReader =
  mr_buffer :: "byte list"
  mr_endian :: endian
  mr_offset :: int

definition MemoryReader_init :: "byte list \<Rightarrow> endian \<Rightarrow> MemoryReader" where
  "MemoryReader_init buffer e = \<lparr>mr_buffer = buffer, mr_endian = e, mr_offset = 0\<rparr>"

text \<open>
  Every method returns its result, or the exception it raises, together with the reader
  as the call leaves it: the cursor the method has moved stays moved when it raises.
\<close>

definition MemoryReader_read :: "int \<Rightarrow> MemoryReader \<Rightarrow> byte list \<times> MemoryReader" where
  "MemoryReader_read count r =
     (let buf = py_slice (mr_buffer r) (mr_offset r) (mr_offset r + count)
      in (buf, r\<lparr>mr_offset := mr_offset r + count\<rparr>))"

definition MemoryReader_read_i8 :: "MemoryReader \<Rightarrow> (error + int) \<times> MemoryReader" where
  "MemoryReader_read_i8 r =
     (let (buf, r') = MemoryReader_read 1 r in (unpack (mr_endian r') Fmt_b buf, r'))"

definition MemoryReader_read_i16 :: "MemoryReader \<Rightarrow> (error + int) \<times> MemoryReader" where
  "MemoryReader_read_i16 r =
     (let (buf, r') = MemoryReader_read 2 r in (unpack (mr_endian r') Fmt_h buf, r'))"

definition MemoryReader_read_i32 :: "MemoryReader \<Rightarrow> (error + int) \<times> MemoryReader" where
  "MemoryReader_read_i32 r =
     (let (buf, r') = MemoryReader_read 4 r in (unpack (mr_endian r') Fmt_i buf, r'))"

definition MemoryReader_read_i64 :: "MemoryReader \<Rightarrow> (error + int) \<times> MemoryReader" where
  "MemoryReader_read_i64 r =
     (let (buf, r') = MemoryReader_read 8 r in (unpack (mr_endian r') Fmt_q buf, r'))"

definition MemoryReader_read_u8 :: "MemoryReader \<Rightarrow> (error + int) \<times> MemoryReader" where
  "MemoryReader_read_u8 r =
     (let (buf, r') = MemoryReader_read 1 r in (unpack (mr_endian r') Fmt_B buf, r'))"

definition MemoryReader_read_u16 :: "MemoryReader \<Rightarrow> (error + int) \<times> MemoryReader" where
  "MemoryReader_read_u16 r =
     (let (buf, r') = MemoryReader_read 2 r in (unpack (mr_endian r') Fmt_H buf, r'))"

definition MemoryReader_read_u32 :: "MemoryReader \<Rightarrow> (error + int) \<times> MemoryReader" where
  "MemoryReader_read_u32 r =
     (let (buf, r') = MemoryReader_read 4 r in (unpack (mr_endian r') Fmt_I buf, r'))"

definition MemoryReader_read_u64 :: "MemoryReader \<Rightarrow> (error + int) \<times> MemoryReader" where
  "MemoryReader_read_u64 r =
     (let (buf, r') = MemoryReader_read 8 r in (unpack (mr_endian r') Fmt_Q buf, r'))"

text \<open>The eight numeric reads, selected by the format each one passes to \<open>unpack\<close>.\<close>

fun MemoryReader_read_num :: "fmt \<Rightarrow> MemoryReader \<Rightarrow> (error + int) \<times> MemoryReader" where
  "MemoryReader_read_num Fmt_b = MemoryReader_read_i8"
| "MemoryReader_read_num Fmt_h = MemoryReader_read_i16"
| "MemoryReader_read_num Fmt_i = MemoryReader_read_i32"
| "MemoryReader_read_num Fmt_q = MemoryReader_read_i64"
| "MemoryReader_read_num Fmt_B = MemoryReader_read_u8"
| "MemoryReader_read_num Fmt_H = MemoryReader_read_u16"
| "MemoryReader_read_num Fmt_I = MemoryReader_read_u32"
| "MemoryReader_read_num Fmt_Q = MemoryReader_read_u64"

definition MemoryReader_read_str :: "int \<Rightarrow> MemoryReader \<Rightarrow> (error + str) \<times> MemoryReader" where
  "MemoryReader_read_str len r =
     (let (buf, r') = MemoryReader_read len r in (utf8_decode buf, r'))"

definition MemoryReader_seek :: "int \<Rightarrow> MemoryReader \<Rightarrow> MemoryReader" where
  "MemoryReader_seek off r = r\<lparr>mr_offset := off\<rparr>"

definition MemoryReader_tell :: "MemoryReader \<Rightarrow> int" where
  "MemoryReader_tell r = mr_offset r"

definition MemoryReader_skip :: "int \<Rightarrow> MemoryReader \<Rightarrow> MemoryReader" where
  "MemoryReader_skip count r = MemoryReader_seek (MemoryReader_tell r + count) r"

text \<open>
  The scan of \<open>read_strz\<close>: \<open>while self.read_i8() != terminator: str_length += 1\<close>.
  It ends when a byte read as a signed 8-bit integer equals the terminator, or when
  \<open>read_i8\<close> raises.
\<close>

function MemoryReader_read_strz_scan ::
  "int \<Rightarrow> int \<Rightarrow> MemoryReader \<Rightarrow> (error + int) \<times> MemoryReader" where
  "MemoryReader_read_strz_scan terminator str_length r =
     (case MemoryReader_read_i8 r of
        (Inl e, r') \<Rightarrow> (Inl e, r')
      | (Inr v, r') \<Rightarrow>
          if v \<noteq> terminator
          then MemoryReader_read_strz_scan terminator (str_length + 1) r'
          else (Inr str_length, r'))"
  by pat_completeness auto
termination
proof (relation "measure (\<lambda>(t, n, r). nat (int (length (mr_buffer r)) - mr_offset r))")
  show "wf (measure (\<lambda>(t, n, r). nat (int (length (mr_buffer r)) - mr_offset r)))"
    by simp
next
  fix terminator str_length :: int and r r' :: MemoryReader and x :: "error + int" and v :: int
  assume rd: "(x, r') = MemoryReader_read_i8 r" and x: "x = Inr v"
  let ?buf = "py_slice (mr_buffer r) (mr_offset r) (mr_offset r + 1)"
  from rd have r': "r' = r\<lparr>mr_offset := mr_offset r + 1\<rparr>"
    and u: "unpack (mr_endian r) Fmt_b ?buf = x"
    by (simp_all add: MemoryReader_read_i8_def MemoryReader_read_def Let_def)
  from u x have len: "length ?buf = 1"
    by (cases "length ?buf = 1") (simp_all add: unpack_def)
  have "mr_offset r < int (length (mr_buffer r))"
  proof (rule ccontr)
    assume "\<not> mr_offset r < int (length (mr_buffer r))"
    then have "py_index (length (mr_buffer r)) (mr_offset r) = length (mr_buffer r)"
      by (simp add: py_index_def)
    then have "?buf = []" by (simp add: py_slice_def Let_def)
    with len show False by simp
  qed
  then show "((terminator, str_length + 1, r'), (terminator, str_length, r))
        \<in> measure (\<lambda>(t, n, r). nat (int (length (mr_buffer r)) - mr_offset r))"
    by (simp add: r')
qed

definition MemoryReader_read_strz :: "int \<Rightarrow> MemoryReader \<Rightarrow> (error + str) \<times> MemoryReader" where
  "MemoryReader_read_strz terminator r =
     (let pos = MemoryReader_tell r
      in case MemoryReader_read_strz_scan terminator 0 r of
           (Inl e, r1) \<Rightarrow> (Inl e, r1)
         | (Inr str_length, r1) \<Rightarrow>
             (case MemoryReader_read_str str_length (MemoryReader_seek pos r1) of
                (Inl e, r2) \<Rightarrow> (Inl e, r2)
              | (Inr line, r2) \<Rightarrow> (Inr line, MemoryReader_skip 1 r2)))"

section \<open>MemoryWriter\<close>

record MemoryWriter =
  mw_endian :: endian
  mw_buffer :: "byte list"

definition MemoryWriter_init :: "endian \<Rightarrow> MemoryWriter" where
  "MemoryWriter_init e = \<lparr>mw_endian = e, mw_buffer = []\<rparr>"

definition MemoryWriter_write :: "byte list \<Rightarrow> MemoryWriter \<Rightarrow> MemoryWriter" where
  "MemoryWriter_write data w = w\<lparr>mw_buffer := mw_buffer w @ data\<rparr>"

text \<open>\<open>pack\<close> runs before \<open>write\<close>: when it raises, the buffer is as it was.\<close>

definition MemoryWriter_write_i8 :: "int \<Rightarrow> MemoryWriter \<Rightarrow> (error + unit) \<times> MemoryWriter" where
  "MemoryWriter_write_i8 data w =
     (case pack (mw_endian w) Fmt_b data of
        Inl e \<Rightarrow> (Inl e, w)
      | Inr buf \<Rightarrow> (Inr (), MemoryWriter_write buf w))"

definition MemoryWriter_write_i16 :: "int \<Rightarrow> MemoryWriter \<Rightarrow> (error + unit) \<times> MemoryWriter" where
  "MemoryWriter_write_i16 data w =
     (case pack (mw_endian w) Fmt_h data of
        Inl e \<Rightarrow> (Inl e, w)
      | Inr buf \<Rightarrow> (Inr (), MemoryWriter_write buf w))"

definition MemoryWriter_write_i32 :: "int \<Rightarrow> MemoryWriter \<Rightarrow> (error + unit) \<times> MemoryWriter" where
  "MemoryWriter_write_i32 data w =
     (case pack (mw_endian w) Fmt_i data of
        Inl e \<Rightarrow> (Inl e, w)
      | Inr buf \<Rightarrow> (Inr (), MemoryWriter_write buf w))"

definition MemoryWriter_write_i64 :: "int \<Rightarrow> MemoryWriter \<Rightarrow> (error + unit) \<times> MemoryWriter" where
  "MemoryWriter_write_i64 data w =
     (case pack (mw_endian w) Fmt_q data of
        Inl e \<Rightarrow> (Inl e, w)
      | Inr buf \<Rightarrow> (Inr (), MemoryWriter_write buf w))"

definition MemoryWriter_write_u8 :: "int \<Rightarrow> MemoryWriter \<Rightarrow> (error + unit) \<times> MemoryWriter" where
  "MemoryWriter_write_u8 data w =
     (case pack (mw_endian w) Fmt_B data of
        Inl e \<Rightarrow> (Inl e, w)
      | Inr buf \<Rightarrow> (Inr (), MemoryWriter_write buf w))"

definition MemoryWriter_write_u16 :: "int \<Rightarrow> MemoryWriter \<Rightarrow> (error + unit) \<times> MemoryWriter" where
  "MemoryWriter_write_u16 data w =
     (case pack (mw_endian w) Fmt_H data of
        Inl e \<Rightarrow> (Inl e, w)
      | Inr buf \<Rightarrow> (Inr (), MemoryWriter_write buf w))"

definition MemoryWriter_write_u32 :: "int \<Rightarrow> MemoryWriter \<Rightarrow> (error + unit) \<times> MemoryWriter" where
  "MemoryWriter_write_u32 data w =
     (case pack (mw_endian w) Fmt_I data of
        Inl e \<Rightarrow> (Inl e, w)
      | Inr buf \<Rightarrow> (Inr (), MemoryWriter_write buf w))"

definition MemoryWriter_write_u64 :: "int \<Rightarrow> MemoryWriter \<Rightarrow> (error + unit) \<times> MemoryWriter" where
  "MemoryWriter_write_u64 data w =
     (case pack (mw_endian w) Fmt_Q data of
        Inl e \<Rightarrow> (Inl e, w)
      | Inr buf \<Rightarrow> (Inr (), MemoryWriter_write buf w))"

text \<open>The eight numeric writes, selected by the format each one passes to \<open>pack\<close>.\<close>

fun MemoryWriter_write_num ::
  "fmt \<Rightarrow> int \<Rightarrow> MemoryWriter \<Rightarrow> (error + unit) \<times> MemoryWriter" where
  "MemoryWriter_write_num Fmt_b = MemoryWriter_write_i8"
| "MemoryWriter_write_num Fmt_h = MemoryWriter_write_i16"
| "MemoryWriter_write_num Fmt_i = MemoryWriter_write_i32"
| "MemoryWriter_write_num Fmt_q = MemoryWriter_write_i64"
| "MemoryWriter_write_num Fmt_B = MemoryWriter_write_u8"
| "MemoryWriter_write_num Fmt_H = MemoryWriter_write_u16"
| "MemoryWriter_write_num Fmt_I = MemoryWriter_write_u32"
| "MemoryWriter_write_num Fmt_Q = MemoryWriter_write_u64"

definition MemoryWriter_write_str :: "str \<Rightarrow> MemoryWriter \<Rightarrow> (error + unit) \<times> MemoryWriter" where
  "MemoryWriter_write_str data w =
     (case utf8_encode data of
        Inl e \<Rightarrow> (Inl e, w)
      | Inr buf \<Rightarrow> (Inr (), MemoryWriter_write buf w))"

definition MemoryWriter_write_strz :: "str \<Rightarrow> MemoryWriter \<Rightarrow> (error + unit) \<times> MemoryWriter" where
  "MemoryWriter_write_strz data w =
     (case utf8_encode data of
        Inl e \<Rightarrow> (Inl e, w)
      | Inr buf \<Rightarrow> MemoryWriter_write_i8 0 (MemoryWriter_write buf w))"

section \<open>The external stream\<close>

text \<open>
  \<open>Writer\<close> and \<open>Reader\<close> delegate to a seekable binary stream that the caller supplies
  (a \<open>BufferedIOBase\<close>: an \<open>io.BytesIO\<close>, or a file opened in binary mode). The stream is
  its content and its position:
  \<^item> \<open>read(count)\<close> returns the bytes from the position up to \<open>count\<close> of them (all that
    remain when \<open>count\<close> is negative), fewer at the end of the data, and advances the
    position by the number of bytes returned;
  \<^item> \<open>write(data)\<close> overwrites or extends the content at the position, after filling a
    gap between the end of the content and the position with zero bytes, and advances
    the position by \<open>len(data)\<close>; writing no bytes changes nothing;
  \<^item> \<open>seek(offset)\<close> sets the position and raises on a negative offset;
  \<^item> \<open>tell()\<close> returns the position.
\<close>

record stream =
  s_content :: "byte list"
  s_pos :: nat

definition stream_read :: "int \<Rightarrow> stream \<Rightarrow> byte list \<times> stream" where
  "stream_read count s =
     (let avail = drop (s_pos s) (s_content s);
          got = (if count < 0 then avail else take (nat count) avail)
      in (got, s\<lparr>s_pos := s_pos s + length got\<rparr>))"

definition stream_write :: "byte list \<Rightarrow> stream \<Rightarrow> stream" where
  "stream_write data s =
     (if data = [] then s
      else \<lparr>s_content = take (s_pos s) (s_content s)
                        @ replicate (s_pos s - length (s_content s)) 0
                        @ data
                        @ drop (s_pos s + length data) (s_content s),
            s_pos = s_pos s + length data\<rparr>)"

definition stream_seek :: "int \<Rightarrow> stream \<Rightarrow> (error + unit) \<times> stream" where
  "stream_seek off s =
     (if off < 0 then (Inl ValueError, s) else (Inr (), s\<lparr>s_pos := nat off\<rparr>))"

definition stream_tell :: "stream \<Rightarrow> int" where
  "stream_tell s = int (s_pos s)"

section \<open>Writer\<close>

record Writer =
  w_buffer :: stream
  w_endian :: endian

definition Writer_init :: "stream \<Rightarrow> endian \<Rightarrow> Writer" where
  "Writer_init buffer e = \<lparr>w_buffer = buffer, w_endian = e\<rparr>"

definition Writer_write :: "byte list \<Rightarrow> Writer \<Rightarrow> Writer" where
  "Writer_write buf w = w\<lparr>w_buffer := stream_write buf (w_buffer w)\<rparr>"

definition Writer_write_i8 :: "int \<Rightarrow> Writer \<Rightarrow> (error + unit) \<times> Writer" where
  "Writer_write_i8 data w =
     (case pack (w_endian w) Fmt_b data of
        Inl e \<Rightarrow> (Inl e, w)
      | Inr buf \<Rightarrow> (Inr (), Writer_write buf w))"

definition Writer_write_i16 :: "int \<Rightarrow> Writer \<Rightarrow> (error + unit) \<times> Writer" where
  "Writer_write_i16 data w =
     (case pack (w_endian w) Fmt_h data of
        Inl e \<Rightarrow> (Inl e, w)
      | Inr buf \<Rightarrow> (Inr (), Writer_write buf w))"

definition Writer_write_i32 :: "int \<Rightarrow> Writer \<Rightarrow> (error + unit) \<times> Writer" where
  "Writer_write_i32 data w =
     (case pack (w_endian w) Fmt_i data of
        Inl e \<Rightarrow> (Inl e, w)
      | Inr buf \<Rightarrow> (Inr (), Writer_write buf w))"

definition Writer_write_i64 :: "int \<Rightarrow> Writer \<Rightarrow> (error + unit) \<times> Writer" where
  "Writer_write_i64 data w =
     (case pack (w_endian w) Fmt_q data of
        Inl e \<Rightarrow> (Inl e, w)
      | Inr buf \<Rightarrow> (Inr (), Writer_write buf w))"

definition Writer_write_u8 :: "int \<Rightarrow> Writer \<Rightarrow> (error + unit) \<times> Writer" where
  "Writer_write_u8 data w =
     (case pack (w_endian w) Fmt_B data of
        Inl e \<Rightarrow> (Inl e, w)
      | Inr buf \<Rightarrow> (Inr (), Writer_write buf w))"

definition Writer_write_u16 :: "int \<Rightarrow> Writer \<Rightarrow> (error + unit) \<times> Writer" where
  "Writer_write_u16 data w =
     (case pack (w_endian w) Fmt_H data of
        Inl e \<Rightarrow> (Inl e, w)
      | Inr buf \<Rightarrow> (Inr (), Writer_write buf w))"

definition Writer_write_u32 :: "int \<Rightarrow> Writer \<Rightarrow> (error + unit) \<times> Writer" where
  "Writer_write_u32 data w =
     (case pack (w_endian w) Fmt_I data of
        Inl e \<Rightarrow> (Inl e, w)
      | Inr buf \<Rightarrow> (Inr (), Writer_write buf w))"

definition Writer_write_u64 :: "int \<Rightarrow> Writer \<Rightarrow> (error + unit) \<times> Writer" where
  "Writer_write_u64 data w =
     (case pack (w_endian w) Fmt_Q data of
        Inl e \<Rightarrow> (Inl e, w)
      | Inr buf \<Rightarrow> (Inr (), Writer_write buf w))"

fun Writer_write_num :: "fmt \<Rightarrow> int \<Rightarrow> Writer \<Rightarrow> (error + unit) \<times> Writer" where
  "Writer_write_num Fmt_b = Writer_write_i8"
| "Writer_write_num Fmt_h = Writer_write_i16"
| "Writer_write_num Fmt_i = Writer_write_i32"
| "Writer_write_num Fmt_q = Writer_write_i64"
| "Writer_write_num Fmt_B = Writer_write_u8"
| "Writer_write_num Fmt_H = Writer_write_u16"
| "Writer_write_num Fmt_I = Writer_write_u32"
| "Writer_write_num Fmt_Q = Writer_write_u64"



definition Writer_seek :: "int \<Rightarrow> Writer \<Rightarrow> (error + unit) \<times> Writer" where
  "Writer_seek off w =
     (let (res, s) = stream_seek off (w_buffer w) in (res, w\<lparr>w_buffer := s\<rparr>))"

definition Writer_tell :: "Writer \<Rightarrow> int" where
  "Writer_tell w = stream_tell (w_buffer w)"

section \<open>Reader\<close>

record Reader =
  r_buffer :: stream
  r_endian :: endian

definition Reader_init :: "stream \<Rightarrow> endian \<Rightarrow> Reader" where
  "Reader_init buffer e = \<lparr>r_buffer = buffer, r_endian = e\<rparr>"

definition Reader_read :: "int \<Rightarrow> Reader \<Rightarrow> byte list \<times> Reader" where
  "Reader_read count r =
     (let (buf, s) = stream_read count (r_buffer r) in (buf, r\<lparr>r_buffer := s\<rparr>))"

definition Reader_read_i8 :: "Reader \<Rightarrow> (error + int) \<times> Reader" where
  "Reader_read_i8 r =
     (let (buf, r') = Reader_read 1 r in (unpack (r_endian r') Fmt_b buf, r'))"

definition Reader_read_i16 :: "Reader \<Rightarrow> (error + int) \<times> Reader" where
  "Reader_read_i16 r =
     (let (buf, r') = Reader_read 2 r in (unpack (r_endian r') Fmt_h buf, r'))"

definition Reader_read_i32 :: "Reader \<Rightarrow> (error + int) \<times> Reader" where
  "Reader_read_i32 r =
     (let (buf, r') = Reader_read 4 r in (unpack (r_endian r') Fmt_i buf, r'))"

definition Reader_read_i64 :: "Reader \<Rightarrow> (error + int) \<times> Reader" where
  "Reader_read_i64 r =
     (let (buf, r') = Reader_read 8 r in (unpack (r_endian r') Fmt_q buf, r'))"

definition Reader_read_u8 :: "Reader \<Rightarrow> (error + int) \<times> Reader" where
  "Reader_read_u8 r =
     (let (buf, r') = Reader_read 1 r in (unpack (r_endian r') Fmt_B buf, r'))"

definition Reader_read_u16 :: "Reader \<Rightarrow> (error + int) \<times> Reader" where
  "Reader_read_u16 r =
     (let (buf, r') = Reader_read 2 r in (unpack (r_endian r') Fmt_H buf, r'))"

definition Reader_read_u32 :: "Reader \<Rightarrow> (error + int) \<times> Reader" where
  "Reader_read_u32 r =
     (let (buf, r') = Reader_read 4 r in (unpack (r_endian r') Fmt_I buf, r'))"

definition Reader_read_u64 :: "Reader \<Rightarrow> (error + int) \<times> Reader" where
  "Reader_read_u64 r =
     (let (buf, r') = Reader_read 8 r in (unpack (r_endian r') Fmt_Q buf, r'))"

fun Reader_read_num :: "fmt \<Rightarrow> Reader \<Rightarrow> (error + int) \<times> Reader" where
  "Reader_read_num Fmt_b = Reader_read_i8"
| "Reader_read_num Fmt_h = Reader_read_i16"
| "Reader_read_num Fmt_i = Reader_read_i32"
| "Reader_read_num Fmt_q = Reader_read_i64"
| "Reader_read_num Fmt_B = Reader_read_u8"
| "Reader_read_num Fmt_H = Reader_read_u16"
| "Reader_read_num Fmt_I = Reader_read_u32"
| "Reader_read_num Fmt_Q = Reader_read_u64"

definition Reader_read_str :: "int \<Rightarrow> Reader \<Rightarrow> (error + str) \<times> Reader" where
  "Reader_read_str sz r =
     (let (buf, r') = Reader_read sz r in (utf8_decode buf, r'))"

text \<open>\<open>bytes(ints)\<close>: raises unless every integer is in \<open>range(256)\<close>.\<close>

definition py_bytes :: "int list \<Rightarrow> error + byte list" where
  "py_bytes vs =
     (if list_all (\<lambda>v. 0 \<le> v \<and> v < 256) vs then Inr (map word_of_int vs)
      else Inl ValueError)"

text \<open>The byte-wise transform of \<open>read_str_xor\<close>: \<open>map(lambda n: n ^ xor, list(buf))\<close>;
  the argument \<open>xor\<close> of the source is \<open>key\<close> here.\<close>

definition xor_ints :: "int \<Rightarrow> byte list \<Rightarrow> int list" where
  "xor_ints key buf = map (\<lambda>n. uint n XOR key) buf"

definition Reader_read_str_xor :: "int \<Rightarrow> int \<Rightarrow> Reader \<Rightarrow> (error + str) \<times> Reader" where
  "Reader_read_str_xor sz key r =
     (let (buf, r') = Reader_read sz r
      in (case py_bytes (xor_ints key buf) of
            Inl e \<Rightarrow> Inl e
          | Inr bs \<Rightarrow> utf8_decode bs, r'))"

definition Reader_seek :: "int \<Rightarrow> Reader \<Rightarrow> (error + unit) \<times> Reader" where
  "Reader_seek off r =
     (let (res, s) = stream_seek off (r_buffer r) in (res, r\<lparr>r_buffer := s\<rparr>))"

definition Reader_tell :: "Reader \<Rightarrow> int" where
  "Reader_tell r = stream_tell (r_buffer r)"

definition Reader_skip :: "int \<Rightarrow> Reader \<Rightarrow> (error + unit) \<times> Reader" where
  "Reader_skip count r = Reader_seek (Reader_tell r + count) r"

function Reader_read_strz_scan :: "int \<Rightarrow> int \<Rightarrow> Reader \<Rightarrow> (error + int) \<times> Reader" where
  "Reader_read_strz_scan terminator str_length r =
     (case Reader_read_i8 r of
        (Inl e, r') \<Rightarrow> (Inl e, r')
      | (Inr v, r') \<Rightarrow>
          if v \<noteq> terminator
          then Reader_read_strz_scan terminator (str_length + 1) r'
          else (Inr str_length, r'))"
  by pat_completeness auto
termination
proof (relation "measure (\<lambda>(t, n, r). length (s_content (r_buffer r)) - s_pos (r_buffer r))")
  show "wf (measure (\<lambda>(t, n, r). length (s_content (r_buffer r)) - s_pos (r_buffer r)))"
    by simp
next
  fix terminator str_length :: int and r r' :: Reader and x :: "error + int" and v :: int
  assume rd: "(x, r') = Reader_read_i8 r" and x: "x = Inr v"
  let ?s = "r_buffer r"
  let ?buf = "take (Suc 0) (drop (s_pos ?s) (s_content ?s))"
  from rd have r': "r' = r\<lparr>r_buffer := ?s\<lparr>s_pos := s_pos ?s + length ?buf\<rparr>\<rparr>"
    and u: "unpack (r_endian r) Fmt_b ?buf = x"
    by (simp_all add: Reader_read_i8_def Reader_read_def stream_read_def Let_def)
  from u x have len: "length ?buf = 1"
    by (cases "length ?buf = 1") (simp_all add: unpack_def)
  then have "s_pos ?s < length (s_content ?s)"
    by (cases "s_pos ?s < length (s_content ?s)") simp_all
  with len show "((terminator, str_length + 1, r'), (terminator, str_length, r))
        \<in> measure (\<lambda>(t, n, r). length (s_content (r_buffer r)) - s_pos (r_buffer r))"
    by (simp add: r')
qed

definition Reader_read_strz :: "int \<Rightarrow> Reader \<Rightarrow> (error + str) \<times> Reader" where
  "Reader_read_strz terminator r =
     (let pos = Reader_tell r
      in case Reader_read_strz_scan terminator 0 r of
           (Inl e, r1) \<Rightarrow> (Inl e, r1)
         | (Inr str_length, r1) \<Rightarrow>
             (case Reader_seek pos r1 of
                (Inl e, r2) \<Rightarrow> (Inl e, r2)
              | (Inr u, r2) \<Rightarrow>
                  (case Reader_read_str str_length r2 of
                     (Inl e, r3) \<Rightarrow> (Inl e, r3)
                   | (Inr line, r3) \<Rightarrow>
                       (case Reader_skip 1 r3 of
                          (Inl e, r4) \<Rightarrow> (Inl e, r4)
                        | (Inr u', r4) \<Rightarrow> (Inr line, r4)))))"

section \<open>Properties of the runtime primitives\<close>

lemma length_le_bytes: "length (le_bytes n v) = n"
  by (induction n arbitrary: v) simp_all

lemma le_value_le_bytes: "le_value (le_bytes n v) = v mod 256 ^ n"
proof (induction n arbitrary: v)
  case 0
  show ?case by simp
next
  case (Suc n)
  have "uint (word_of_int v :: byte) = v mod 256"
    by (simp add: uint_word_of_int)
  then show ?case
    using Suc zmod_zmult2_eq [of "256 ^ n" v 256] by simp
qed

lemma mod_neg_range: "- m \<le> v \<Longrightarrow> v < 0 \<Longrightarrow> (v::int) mod m = v + m"
proof -
  assume a: "- m \<le> v" "v < 0"
  then have "(v + m) mod m = v + m" by (intro mod_pos_pos_trivial) linarith+
  moreover have "(v + m) mod m = v mod m" by simp
  ultimately show ?thesis by simp
qed

text \<open>What \<open>pack\<close> produces for a value in range, \<open>unpack\<close> reads back.\<close>

lemma unpack_pack_bytes:
  assumes "in_range f v"
  shows "unpack e f (case e of Little \<Rightarrow> le_bytes (fmt_size f) v
                        | Big \<Rightarrow> rev (le_bytes (fmt_size f) v)) = Inr v"
proof -
  let ?bs = "case e of Little \<Rightarrow> le_bytes (fmt_size f) v
                     | Big \<Rightarrow> rev (le_bytes (fmt_size f) v)"
  have u: "le_value (case e of Little \<Rightarrow> ?bs | Big \<Rightarrow> rev ?bs) = v mod 256 ^ fmt_size f"
    by (cases e) (simp_all add: le_value_le_bytes)
  have len: "length ?bs = fmt_size f"
    by (cases e) (simp_all add: length_le_bytes)
  have "(if fmt_signed f \<and> 2 ^ (8 * fmt_size f - 1) \<le> v mod 256 ^ fmt_size f
         then v mod 256 ^ fmt_size f - 2 ^ (8 * fmt_size f) else v mod 256 ^ fmt_size f) = v"
  proof (cases "0 \<le> v")
    case True
    with assms show ?thesis
      by (cases f) (simp_all add: in_range_def fmt_min_def fmt_max_def)
  next
    case False
    then have neg: "v < 0" by simp
    with assms have s: "fmt_signed f" and lo: "- (2 ^ (8 * fmt_size f - 1)) \<le> v"
      by (auto simp: in_range_def fmt_min_def split: if_splits)
    have p: "(256::int) ^ fmt_size f = 2 * 2 ^ (8 * fmt_size f - 1)"
      and q: "(2::int) ^ (8 * fmt_size f) = 2 * 2 ^ (8 * fmt_size f - 1)"
      by (cases f; simp)+
    have "(0::int) \<le> 2 ^ (8 * fmt_size f - 1)" by simp
    with lo have "- (256 ^ fmt_size f) \<le> v" unfolding p by linarith
    then have "v mod 256 ^ fmt_size f = v + 256 ^ fmt_size f"
      using neg by (rule mod_neg_range)
    with s lo show ?thesis unfolding p q by simp
  qed
  then show ?thesis
    unfolding unpack_def Let_def u len by simp
qed

lemma unpack_pack: "pack e f v = Inr bs \<Longrightarrow> unpack e f bs = Inr v"
  using unpack_pack_bytes [of f v e] by (auto simp: pack_def split: if_splits)

lemma pack_length: "pack e f v = Inr bs \<Longrightarrow> length bs = fmt_size f"
  by (cases e) (auto simp: pack_def length_le_bytes split: if_splits)

section \<open>The claims\<close>

text \<open>
  C9. A little-endian writer's \<open>write_u32(305419896)\<close> produces exactly the bytes
  \<open>[0x78, 0x56, 0x34, 0x12]\<close>; a little-endian reader's \<open>read_u32\<close> over those four
  bytes returns 305419896, and a big-endian reader's \<open>read_u32\<close> over the same bytes
  returns 2018915346.
\<close>

theorem C9_u32_scenario:
  "MemoryWriter_write_u32 305419896 (MemoryWriter_init Little)
      = (Inr (), \<lparr>mw_endian = Little, mw_buffer = [0x78, 0x56, 0x34, 0x12]\<rparr>)
   \<and> fst (MemoryReader_read_u32 (MemoryReader_init [0x78, 0x56, 0x34, 0x12] Little))
      = Inr 305419896
   \<and> fst (MemoryReader_read_u32 (MemoryReader_init [0x78, 0x56, 0x34, 0x12] Big))
      = Inr 2018915346"
  by code_simp

lemma MemoryWriter_write_num_eq:
  "MemoryWriter_write_num f v w =
     (case pack (mw_endian w) f v of
        Inl e \<Rightarrow> (Inl e, w)
      | Inr buf \<Rightarrow> (Inr (), MemoryWriter_write buf w))"
  by (cases f)
     (simp_all add: MemoryWriter_write_i8_def MemoryWriter_write_i16_def
        MemoryWriter_write_i32_def MemoryWriter_write_i64_def MemoryWriter_write_u8_def
        MemoryWriter_write_u16_def MemoryWriter_write_u32_def MemoryWriter_write_u64_def)

lemma Writer_write_num_eq:
  "Writer_write_num f v w =
     (case pack (w_endian w) f v of
        Inl e \<Rightarrow> (Inl e, w)
      | Inr buf \<Rightarrow> (Inr (), Writer_write buf w))"
  by (cases f)
     (simp_all add: Writer_write_i8_def Writer_write_i16_def
        Writer_write_i32_def Writer_write_i64_def Writer_write_u8_def
        Writer_write_u16_def Writer_write_u32_def Writer_write_u64_def)

lemma MemoryReader_read_num_eq:
  "MemoryReader_read_num f r =
     (unpack (mr_endian r) f
        (py_slice (mr_buffer r) (mr_offset r) (mr_offset r + int (fmt_size f))),
      r\<lparr>mr_offset := mr_offset r + int (fmt_size f)\<rparr>)"
  by (cases f)
     (simp_all add: MemoryReader_read_i8_def MemoryReader_read_i16_def
        MemoryReader_read_i32_def MemoryReader_read_i64_def MemoryReader_read_u8_def
        MemoryReader_read_u16_def MemoryReader_read_u32_def MemoryReader_read_u64_def
        MemoryReader_read_def Let_def)

lemma Reader_read_num_eq:
  "Reader_read_num f r =
     (unpack (r_endian r) f (fst (stream_read (int (fmt_size f)) (r_buffer r))),
      r\<lparr>r_buffer := snd (stream_read (int (fmt_size f)) (r_buffer r))\<rparr>)"
  by (cases f)
     (simp_all add: Reader_read_i8_def Reader_read_i16_def
        Reader_read_i32_def Reader_read_i64_def Reader_read_u8_def
        Reader_read_u16_def Reader_read_u32_def Reader_read_u64_def
        Reader_read_def Let_def split_beta)

lemma py_slice_whole: "py_slice xs 0 (int (length xs)) = xs"
  by (simp add: py_slice_def py_index_def Let_def)

lemma length_py_slice:
  "length (py_slice xs a b) =
     min (py_index (length xs) b - py_index (length xs) a) (length xs - py_index (length xs) a)"
  by (simp add: py_slice_def Let_def)

lemma py_slice_short:
  assumes "int (length xs) - a < int n" and "0 < n"
  shows "length (py_slice xs a (a + int n)) < n"
proof (cases "a < 0")
  case True
  with assms have "length xs < n" by linarith
  moreover have "length (py_slice xs a (a + int n)) \<le> length xs"
    by (simp add: length_py_slice)
  ultimately show ?thesis by linarith
next
  case False
  then have "py_index (length xs) a = min (nat a) (length xs)"
    by (simp add: py_index_def)
  then have "length (py_slice xs a (a + int n)) \<le> length xs - nat a"
    by (simp add: length_py_slice min_def split: if_splits)
  with assms False show ?thesis by arith
qed

lemma fmt_size_pos: "0 < fmt_size f"
  by (cases f) simp_all

text \<open>
  C1. For every width and signedness (the format \<open>f\<close>), every endianness \<open>e\<close> and every
  integer \<open>v\<close> in the format's range: a fresh writer's \<open>write_<W>(v)\<close> succeeds, and
  \<open>read_<W>()\<close> of a reader of the same endianness over the bytes the writer produced
  returns exactly \<open>v\<close>. This holds for the in-memory pair and for the pair over a stream.
\<close>

theorem C1_numeric_roundtrip:
  assumes "in_range f v"
  shows "fst (MemoryWriter_write_num f v (MemoryWriter_init e)) = Inr ()
     \<and> fst (MemoryReader_read_num f
            (MemoryReader_init
               (mw_buffer (snd (MemoryWriter_write_num f v (MemoryWriter_init e)))) e))
         = Inr v
     \<and> fst (Writer_write_num f v (Writer_init \<lparr>s_content = [], s_pos = 0\<rparr> e)) = Inr ()
     \<and> fst (Reader_read_num f
            (Reader_init
               \<lparr>s_content = s_content (w_buffer (snd (Writer_write_num f v
                                (Writer_init \<lparr>s_content = [], s_pos = 0\<rparr> e)))),
                s_pos = 0\<rparr> e))
         = Inr v"
proof -
  from assms obtain bs where p: "pack e f v = Inr bs"
    by (simp add: pack_def)
  then have len: "length bs = fmt_size f" and u: "unpack e f bs = Inr v"
    by (simp_all add: pack_length unpack_pack)
  from len have ne: "bs \<noteq> []"
    using fmt_size_pos [of f] by auto
  have w: "MemoryWriter_write_num f v (MemoryWriter_init e)
             = (Inr (), \<lparr>mw_endian = e, mw_buffer = bs\<rparr>)"
    by (simp add: MemoryWriter_write_num_eq MemoryWriter_init_def MemoryWriter_write_def p)
  have "py_slice bs 0 (int (fmt_size f)) = bs"
    using py_slice_whole [of bs] len by simp
  then have m: "fst (MemoryReader_read_num f (MemoryReader_init bs e)) = Inr v"
    by (simp add: MemoryReader_read_num_eq MemoryReader_init_def u)
  have sw: "Writer_write_num f v (Writer_init \<lparr>s_content = [], s_pos = 0\<rparr> e)
             = (Inr (), \<lparr>w_buffer = \<lparr>s_content = bs, s_pos = length bs\<rparr>, w_endian = e\<rparr>)"
    using ne
    by (simp add: Writer_write_num_eq Writer_init_def Writer_write_def stream_write_def p)
  have "fst (stream_read (int (fmt_size f)) \<lparr>s_content = bs, s_pos = 0\<rparr>) = bs"
    using len by (simp add: stream_read_def Let_def)
  then have sr: "fst (Reader_read_num f (Reader_init \<lparr>s_content = bs, s_pos = 0\<rparr> e)) = Inr v"
    by (simp add: Reader_read_num_eq Reader_init_def u)
  from w m sw sr show ?thesis by simp
qed

theorem C1_numeric_roundtrip_witness:
  "in_range Fmt_h (-2)
     \<and> MemoryWriter_write_num Fmt_h (-2) (MemoryWriter_init Big)
         = (Inr (), \<lparr>mw_endian = Big, mw_buffer = [0xFF, 0xFE]\<rparr>)
     \<and> fst (MemoryReader_read_num Fmt_h (MemoryReader_init [0xFF, 0xFE] Big)) = Inr (-2)"
proof -
  have h: "in_range Fmt_h (-2)" by (simp add: in_range_def fmt_min_def fmt_max_def)
  have w: "MemoryWriter_write_num Fmt_h (-2) (MemoryWriter_init Big)
         = (Inr (), \<lparr>mw_endian = Big, mw_buffer = [0xFF, 0xFE]\<rparr>)"
    by code_simp
  from C1_numeric_roundtrip [OF h, of Big] h w show ?thesis by simp
qed

text \<open>
  C2. For every reader and every fixed-width numeric read: when fewer bytes than the
  width remain between the cursor and the end of the data, \<open>read_<W>()\<close> fails with
  Underflow and returns no value.
\<close>

theorem C2_underflow:
  "(int (length (mr_buffer r)) - mr_offset r < int (fmt_size f)
      \<longrightarrow> fst (MemoryReader_read_num f r) = Inl Underflow)
   \<and> (length (s_content (r_buffer rd)) - s_pos (r_buffer rd) < fmt_size f
      \<longrightarrow> fst (Reader_read_num f rd) = Inl Underflow)"
proof (intro conjI impI)
  assume "int (length (mr_buffer r)) - mr_offset r < int (fmt_size f)"
  then have "length (py_slice (mr_buffer r) (mr_offset r) (mr_offset r + int (fmt_size f)))
               \<noteq> fmt_size f"
    using py_slice_short [of "mr_buffer r" "mr_offset r" "fmt_size f"] fmt_size_pos [of f]
    by simp
  then show "fst (MemoryReader_read_num f r) = Inl Underflow"
    by (simp add: MemoryReader_read_num_eq unpack_def)
next
  assume "length (s_content (r_buffer rd)) - s_pos (r_buffer rd) < fmt_size f"
  then have "length (fst (stream_read (int (fmt_size f)) (r_buffer rd))) \<noteq> fmt_size f"
    by (simp add: stream_read_def Let_def)
  then show "fst (Reader_read_num f rd) = Inl Underflow"
    by (simp add: Reader_read_num_eq unpack_def)
qed

theorem C2_underflow_witness:
  "fst (MemoryReader_read_i32 \<lparr>mr_buffer = [0x12, 0x34], mr_endian = Little, mr_offset = 0\<rparr>)
     = Inl Underflow
   \<and> fst (MemoryReader_read_u32 \<lparr>mr_buffer = [0x12, 0x34], mr_endian = Little, mr_offset = 0\<rparr>)
     = Inl Underflow
   \<and> fst (Reader_read_i32 \<lparr>r_buffer = \<lparr>s_content = [0x12, 0x34], s_pos = 0\<rparr>, r_endian = Big\<rparr>)
     = Inl Underflow"
  using C2_underflow [of "\<lparr>mr_buffer = [0x12, 0x34], mr_endian = Little, mr_offset = 0\<rparr>" Fmt_i
          "\<lparr>r_buffer = \<lparr>s_content = [0x12, 0x34], s_pos = 0\<rparr>, r_endian = Big\<rparr>"]
        C2_underflow [of "\<lparr>mr_buffer = [0x12, 0x34], mr_endian = Little, mr_offset = 0\<rparr>" Fmt_I
          "\<lparr>r_buffer = \<lparr>s_content = [0x12, 0x34], s_pos = 0\<rparr>, r_endian = Big\<rparr>"]
  by simp

text \<open>
  C6. For every fixed-width write and every integer outside the range of its width and
  signedness, the call fails with a RangeError and the writer is as it was: no byte is
  committed.
\<close>

theorem C6_range_error:
  assumes "\<not> in_range f v"
  shows "MemoryWriter_write_num f v w = (Inl RangeError, w)
       \<and> Writer_write_num f v wr = (Inl RangeError, wr)"
  using assms by (simp add: MemoryWriter_write_num_eq Writer_write_num_eq pack_def)

theorem C6_range_error_witness:
  "\<not> in_range Fmt_B 300
   \<and> MemoryWriter_write_u8 300 (MemoryWriter_init Little)
       = (Inl RangeError, MemoryWriter_init Little)
   \<and> Writer_write_u8 300 \<lparr>w_buffer = \<lparr>s_content = [], s_pos = 0\<rparr>, w_endian = Little\<rparr>
       = (Inl RangeError, \<lparr>w_buffer = \<lparr>s_content = [], s_pos = 0\<rparr>, w_endian = Little\<rparr>)"
proof -
  have h: "\<not> in_range Fmt_B 300" by (simp add: in_range_def fmt_min_def fmt_max_def)
  from C6_range_error [OF h, of "MemoryWriter_init Little"
        "\<lparr>w_buffer = \<lparr>s_content = [], s_pos = 0\<rparr>, w_endian = Little\<rparr>"] h
  show ?thesis by simp
qed

subsection \<open>Reading one signed byte\<close>

lemma sint_byte: "sint (b :: byte) = (if 128 \<le> uint b then uint b - 256 else uint b)"
proof -
  have r: "0 \<le> uint b" "uint b < 256"
    using uint_lt2p [of b] by simp_all
  show ?thesis
  proof (cases "128 \<le> uint b")
    case True
    with r have "(uint b - 128) mod 256 = uint b - 128"
      by (intro mod_pos_pos_trivial) linarith+
    moreover have "(uint b - 128 + 256) mod 256 = (uint b - 128) mod 256"
      by (simp only: mod_add_self2)
    moreover have "uint b - 128 + 256 = uint b + 128" by simp
    ultimately have "(uint b + 128) mod 256 = uint b - 128" by simp
    with True show ?thesis
      by (simp add: sint_uint signed_take_bit_eq_take_bit_shift take_bit_eq_mod)
  next
    case False
    with r have "(uint b + 128) mod 256 = uint b + 128"
      by (intro mod_pos_pos_trivial) linarith+
    with False show ?thesis
      by (simp add: sint_uint signed_take_bit_eq_take_bit_shift take_bit_eq_mod)
  qed
qed

lemma unpack_b_single: "unpack e Fmt_b [b] = Inr (sint b)"
  by (cases e) (simp_all add: unpack_def sint_byte)

lemma unpack_Inl: "unpack e f buf = Inl err \<Longrightarrow> err = Underflow"
  by (auto simp: unpack_def Let_def split: if_splits)

lemma unpack_b_cases:
  "unpack e Fmt_b buf = Inl Underflow \<and> length buf \<noteq> 1
   \<or> (\<exists>b. buf = [b] \<and> unpack e Fmt_b buf = Inr (sint b))"
proof (cases buf)
  case Nil
  then show ?thesis by (simp add: unpack_def)
next
  case (Cons b bs)
  then show ?thesis
    by (cases bs) (simp_all add: unpack_b_single, simp add: unpack_def)
qed

lemma MemoryReader_read_i8_eq:
  "MemoryReader_read_i8 r =
     (unpack (mr_endian r) Fmt_b (py_slice (mr_buffer r) (mr_offset r) (mr_offset r + 1)),
      r\<lparr>mr_offset := mr_offset r + 1\<rparr>)"
  by (simp add: MemoryReader_read_i8_def MemoryReader_read_def Let_def)

lemma py_slice_one:
  "0 \<le> a \<Longrightarrow> a < int (length xs) \<Longrightarrow> py_slice xs a (a + 1) = [xs ! nat a]"
proof -
  assume a: "0 \<le> a" "a < int (length xs)"
  then have s: "py_index (length xs) a = nat a"
    and e: "py_index (length xs) (a + 1) = Suc (nat a)"
    by (auto simp: py_index_def)
  from a have "take (Suc 0) (drop (nat a) xs) = [xs ! nat a]"
    by (simp add: take_Suc_conv_app_nth)
  then show ?thesis by (simp add: py_slice_def Let_def s e)
qed

lemma py_slice_past_end:
  "int (length xs) \<le> a \<Longrightarrow> py_slice xs a b = []"
  by (simp add: py_slice_def py_index_def Let_def)

lemma set_py_slice: "set (py_slice xs a b) \<subseteq> set (drop (nat a) xs)"
proof (cases "a < 0")
  case True
  have "set (py_slice xs a b) \<subseteq> set xs"
    unfolding py_slice_def Let_def
    by (meson set_take_subset set_drop_subset subset_trans)
  with True show ?thesis by simp
next
  case False
  then have "drop (py_index (length xs) a) xs = drop (nat a) xs"
    by (simp add: py_index_def min_def)
  then show ?thesis
    unfolding py_slice_def Let_def by (simp add: set_take_subset)
qed

lemma MemoryReader_read_i8_at:
  assumes "0 \<le> mr_offset r" and "mr_offset r < int (length (mr_buffer r))"
  shows "MemoryReader_read_i8 r =
          (Inr (sint (mr_buffer r ! nat (mr_offset r))), r\<lparr>mr_offset := mr_offset r + 1\<rparr>)"
  using assms by (simp add: MemoryReader_read_i8_eq py_slice_one unpack_b_single)

lemma MemoryReader_read_i8_end:
  assumes "int (length (mr_buffer r)) \<le> mr_offset r"
  shows "MemoryReader_read_i8 r = (Inl Underflow, r\<lparr>mr_offset := mr_offset r + 1\<rparr>)"
  using assms by (simp add: MemoryReader_read_i8_eq py_slice_past_end unpack_def)

text \<open>Whatever the cursor, \<open>read_i8\<close> raises Underflow or returns a byte that lies at or
  after the cursor, read as a signed integer.\<close>

lemma MemoryReader_read_i8_cases:
  "fst (MemoryReader_read_i8 r) = Inl Underflow
   \<or> (\<exists>b \<in> set (drop (nat (mr_offset r)) (mr_buffer r)).
         fst (MemoryReader_read_i8 r) = Inr (sint b))"
proof -
  let ?buf = "py_slice (mr_buffer r) (mr_offset r) (mr_offset r + 1)"
  from unpack_b_cases [of "mr_endian r" ?buf] show ?thesis
  proof
    assume "unpack (mr_endian r) Fmt_b ?buf = Inl Underflow \<and> length ?buf \<noteq> 1"
    then show ?thesis by (simp add: MemoryReader_read_i8_eq)
  next
    assume "\<exists>b. ?buf = [b] \<and> unpack (mr_endian r) Fmt_b ?buf = Inr (sint b)"
    then obtain b where b: "?buf = [b]" "unpack (mr_endian r) Fmt_b ?buf = Inr (sint b)"
      by blast
    then have "b \<in> set ?buf" by simp
    with set_py_slice [of "mr_buffer r" "mr_offset r" "mr_offset r + 1"]
    have "b \<in> set (drop (nat (mr_offset r)) (mr_buffer r))" by blast
    with b show ?thesis by (auto simp: MemoryReader_read_i8_eq)
  qed
qed

lemma sint_byte_range: "- 128 \<le> sint (b :: byte) \<and> sint b \<le> 127"
  using sint_ge [of b] sint_lt [of b] by simp

subsection \<open>The terminator scan of MemoryReader\<close>

lemma MemoryReader_scan_step:
  "MemoryReader_read_strz_scan t n r =
     (case fst (MemoryReader_read_i8 r) of
        Inl e \<Rightarrow> (Inl e, r\<lparr>mr_offset := mr_offset r + 1\<rparr>)
      | Inr v \<Rightarrow>
          if v \<noteq> t
          then MemoryReader_read_strz_scan t (n + 1) (r\<lparr>mr_offset := mr_offset r + 1\<rparr>)
          else (Inr n, r\<lparr>mr_offset := mr_offset r + 1\<rparr>))"
  by (subst MemoryReader_read_strz_scan.simps)
     (simp add: MemoryReader_read_i8_eq split: sum.splits)

text \<open>A scan that meets no terminator from the cursor on raises Underflow.\<close>

lemma MemoryReader_scan_no_terminator:
  "\<forall>b \<in> set (drop (nat (mr_offset r)) (mr_buffer r)). sint b \<noteq> t
     \<Longrightarrow> fst (MemoryReader_read_strz_scan t n r) = Inl Underflow"
proof (induction t n r rule: MemoryReader_read_strz_scan.induct)
  case (1 t n r)
  let ?r' = "r\<lparr>mr_offset := mr_offset r + 1\<rparr>"
  from MemoryReader_read_i8_cases [of r] show ?case
  proof
    assume "fst (MemoryReader_read_i8 r) = Inl Underflow"
    then show ?thesis by (subst MemoryReader_scan_step) simp
  next
    assume "\<exists>b \<in> set (drop (nat (mr_offset r)) (mr_buffer r)).
              fst (MemoryReader_read_i8 r) = Inr (sint b)"
    then obtain b where b: "b \<in> set (drop (nat (mr_offset r)) (mr_buffer r))"
      and rd: "fst (MemoryReader_read_i8 r) = Inr (sint b)" by blast
    from b "1.prems" have ne: "sint b \<noteq> t" by blast
    have eq: "(Inr (sint b), ?r') = MemoryReader_read_i8 r"
      using rd by (simp add: MemoryReader_read_i8_eq)
    have "set (drop (nat (mr_offset r + 1)) (mr_buffer r))
            \<subseteq> set (drop (nat (mr_offset r)) (mr_buffer r))"
      by (rule set_drop_subset_set_drop) simp
    with "1.prems" have "\<forall>b \<in> set (drop (nat (mr_offset ?r')) (mr_buffer ?r')). sint b \<noteq> t"
      by auto
    with "1.IH" [OF eq refl ne]
    have "fst (MemoryReader_read_strz_scan t (n + 1) ?r') = Inl Underflow" .
    with rd ne show ?thesis by (subst MemoryReader_scan_step) simp
  qed
qed

text \<open>No byte read as a signed 8-bit integer equals a terminator outside \<open>-128..127\<close>.\<close>

lemma MemoryReader_scan_unreachable:
  assumes "127 < t \<or> t < - 128"
  shows "fst (MemoryReader_read_strz_scan t n r) = Inl Underflow"
proof (rule MemoryReader_scan_no_terminator, rule ballI)
  fix b :: byte
  from sint_byte_range [of b] assms show "sint b \<noteq> t" by linarith
qed

text \<open>From a cursor inside the data, a scan that raises leaves the cursor one past the
  end of the data.\<close>

lemma MemoryReader_scan_fail_cursor:
  "0 \<le> mr_offset r \<Longrightarrow> MemoryReader_read_strz_scan t n r = (Inl e, r')
     \<Longrightarrow> r' = r\<lparr>mr_offset := max (mr_offset r) (int (length (mr_buffer r))) + 1\<rparr>"
proof (induction t n r rule: MemoryReader_read_strz_scan.induct)
  case (1 t n r)
  let ?r' = "r\<lparr>mr_offset := mr_offset r + 1\<rparr>"
  show ?case
  proof (cases "mr_offset r < int (length (mr_buffer r))")
    case False
    then have "MemoryReader_read_i8 r = (Inl Underflow, ?r')"
      by (simp add: MemoryReader_read_i8_end)
    with "1.prems" False show ?thesis
      by (subst (asm) MemoryReader_scan_step) (simp add: max_def)
  next
    case True
    let ?v = "sint (mr_buffer r ! nat (mr_offset r))"
    from True "1.prems" have rd: "MemoryReader_read_i8 r = (Inr ?v, ?r')"
      by (simp add: MemoryReader_read_i8_at)
    from "1.prems"(2) rd have ne: "?v \<noteq> t"
      and rec: "MemoryReader_read_strz_scan t (n + 1) ?r' = (Inl e, r')"
      by (subst (asm) MemoryReader_scan_step, simp split: if_splits)+
    from "1.IH" [OF rd [symmetric] refl ne _ rec] "1.prems"(1)
    have "r' = ?r'\<lparr>mr_offset := max (mr_offset ?r') (int (length (mr_buffer ?r'))) + 1\<rparr>"
      by simp
    with True show ?thesis by (simp add: max_def)
  qed
qed

text \<open>A scan that finds the terminator: where it stops and what it has counted.\<close>

lemma MemoryReader_scan_found:
  "0 \<le> mr_offset r \<Longrightarrow> MemoryReader_read_strz_scan t n r = (Inr m, r')
     \<Longrightarrow> n \<le> m \<and> r' = r\<lparr>mr_offset := mr_offset r + (m - n) + 1\<rparr>
         \<and> mr_offset r + (m - n) < int (length (mr_buffer r))"
proof (induction t n r rule: MemoryReader_read_strz_scan.induct)
  case (1 t n r)
  let ?r' = "r\<lparr>mr_offset := mr_offset r + 1\<rparr>"
  show ?case
  proof (cases "mr_offset r < int (length (mr_buffer r))")
    case False
    then have "MemoryReader_read_i8 r = (Inl Underflow, ?r')"
      by (simp add: MemoryReader_read_i8_end)
    with "1.prems" show ?thesis
      by (subst (asm) MemoryReader_scan_step) simp
  next
    case True
    let ?v = "sint (mr_buffer r ! nat (mr_offset r))"
    from True "1.prems" have rd: "MemoryReader_read_i8 r = (Inr ?v, ?r')"
      by (simp add: MemoryReader_read_i8_at)
    show ?thesis
    proof (cases "?v = t")
      case True
      with "1.prems"(2) rd have "m = n" "r' = ?r'"
        by (subst (asm) MemoryReader_scan_step, simp)+
      with \<open>mr_offset r < int (length (mr_buffer r))\<close> show ?thesis by simp
    next
      case False
      with "1.prems"(2) rd
      have rec: "MemoryReader_read_strz_scan t (n + 1) ?r' = (Inr m, r')"
        by (subst (asm) MemoryReader_scan_step) simp
      from "1.IH" [OF rd [symmetric] refl False _ rec] "1.prems"(1)
      have "n + 1 \<le> m \<and> r' = ?r'\<lparr>mr_offset := mr_offset ?r' + (m - (n + 1)) + 1\<rparr>
              \<and> mr_offset ?r' + (m - (n + 1)) < int (length (mr_buffer ?r'))"
        by simp
      then show ?thesis by simp
    qed
  qed
qed

subsection \<open>The terminator scan of Reader\<close>

lemma Reader_read_i8_eq:
  "Reader_read_i8 r =
     (unpack (r_endian r) Fmt_b (fst (stream_read 1 (r_buffer r))),
      r\<lparr>r_buffer := snd (stream_read 1 (r_buffer r))\<rparr>)"
  by (simp add: Reader_read_i8_def Reader_read_def split_beta)

lemma Reader_read_i8_cases:
  "fst (Reader_read_i8 r) = Inl Underflow
   \<or> (\<exists>b \<in> set (drop (s_pos (r_buffer r)) (s_content (r_buffer r))).
         fst (Reader_read_i8 r) = Inr (sint b))"
proof -
  let ?buf = "fst (stream_read 1 (r_buffer r))"
  have sub: "set ?buf \<subseteq> set (drop (s_pos (r_buffer r)) (s_content (r_buffer r)))"
    by (simp add: stream_read_def Let_def set_take_subset)
  from unpack_b_cases [of "r_endian r" ?buf] show ?thesis
  proof
    assume "unpack (r_endian r) Fmt_b ?buf = Inl Underflow \<and> length ?buf \<noteq> 1"
    then show ?thesis by (simp add: Reader_read_i8_eq)
  next
    assume "\<exists>b. ?buf = [b] \<and> unpack (r_endian r) Fmt_b ?buf = Inr (sint b)"
    then obtain b where b: "?buf = [b]" "unpack (r_endian r) Fmt_b ?buf = Inr (sint b)"
      by blast
    then have "b \<in> set ?buf" by simp
    with sub have "b \<in> set (drop (s_pos (r_buffer r)) (s_content (r_buffer r)))" by blast
    with b show ?thesis by (auto simp: Reader_read_i8_eq)
  qed
qed

lemma Reader_scan_step:
  "Reader_read_strz_scan t n r =
     (case fst (Reader_read_i8 r) of
        Inl e \<Rightarrow> (Inl e, snd (Reader_read_i8 r))
      | Inr v \<Rightarrow>
          if v \<noteq> t
          then Reader_read_strz_scan t (n + 1) (snd (Reader_read_i8 r))
          else (Inr n, snd (Reader_read_i8 r)))"
  by (subst Reader_read_strz_scan.simps)
     (cases "Reader_read_i8 r", simp split: sum.splits)

lemma Reader_scan_no_terminator:
  "\<forall>b \<in> set (drop (s_pos (r_buffer r)) (s_content (r_buffer r))). sint b \<noteq> t
     \<Longrightarrow> fst (Reader_read_strz_scan t n r) = Inl Underflow"
proof (induction t n r rule: Reader_read_strz_scan.induct)
  case (1 t n r)
  let ?r' = "snd (Reader_read_i8 r)"
  from Reader_read_i8_cases [of r] show ?case
  proof
    assume "fst (Reader_read_i8 r) = Inl Underflow"
    then show ?thesis by (subst Reader_scan_step) simp
  next
    assume "\<exists>b \<in> set (drop (s_pos (r_buffer r)) (s_content (r_buffer r))).
              fst (Reader_read_i8 r) = Inr (sint b)"
    then obtain b where b: "b \<in> set (drop (s_pos (r_buffer r)) (s_content (r_buffer r)))"
      and rd: "fst (Reader_read_i8 r) = Inr (sint b)" by blast
    from b "1.prems" have ne: "sint b \<noteq> t" by blast
    have eq: "(Inr (sint b), ?r') = Reader_read_i8 r"
      using rd by (simp add: prod_eq_iff)
    have c: "s_content (r_buffer ?r') = s_content (r_buffer r)"
      and p: "s_pos (r_buffer r) \<le> s_pos (r_buffer ?r')"
      by (simp_all add: Reader_read_i8_eq stream_read_def Let_def)
    from p have "set (drop (s_pos (r_buffer ?r')) (s_content (r_buffer r)))
            \<subseteq> set (drop (s_pos (r_buffer r)) (s_content (r_buffer r)))"
      by (rule set_drop_subset_set_drop)
    with "1.prems" c
    have "\<forall>b \<in> set (drop (s_pos (r_buffer ?r')) (s_content (r_buffer ?r'))). sint b \<noteq> t"
      by auto
    with "1.IH" [OF eq refl ne]
    have "fst (Reader_read_strz_scan t (n + 1) ?r') = Inl Underflow" .
    with rd ne show ?thesis by (subst Reader_scan_step) simp
  qed
qed

lemma MemoryReader_read_strz_fail:
  "fst (MemoryReader_read_strz_scan t 0 r) = Inl e
     \<Longrightarrow> fst (MemoryReader_read_strz t r) = Inl e
        \<and> snd (MemoryReader_read_strz t r) = snd (MemoryReader_read_strz_scan t 0 r)"
  by (cases "MemoryReader_read_strz_scan t 0 r")
     (simp add: MemoryReader_read_strz_def Let_def)

lemma Reader_read_strz_fail:
  "fst (Reader_read_strz_scan t 0 r) = Inl e \<Longrightarrow> fst (Reader_read_strz t r) = Inl e"
  by (cases "Reader_read_strz_scan t 0 r") (simp add: Reader_read_strz_def Let_def)

lemma sint_eq_nonneg: "0 \<le> t \<Longrightarrow> sint (b :: byte) = t \<Longrightarrow> uint b = t"
  using uint_lt2p [of b] by (simp add: sint_byte split: if_splits)

text \<open>
  C8. When \<open>read_strz\<close> starts at a position from which no byte equal to the terminator
  occurs before the end of the data, it fails with Underflow instead of returning a
  string (both readers).
\<close>

theorem C8_no_terminator_underflow:
  assumes "0 \<le> t"
  shows "((\<forall>b \<in> set (drop (nat (mr_offset r)) (mr_buffer r)). uint b \<noteq> t)
            \<longrightarrow> fst (MemoryReader_read_strz t r) = Inl Underflow)
       \<and> ((\<forall>b \<in> set (drop (s_pos (r_buffer rd)) (s_content (r_buffer rd))). uint b \<noteq> t)
            \<longrightarrow> fst (Reader_read_strz t rd) = Inl Underflow)"
proof (intro conjI impI)
  assume "\<forall>b \<in> set (drop (nat (mr_offset r)) (mr_buffer r)). uint b \<noteq> t"
  with assms have "\<forall>b \<in> set (drop (nat (mr_offset r)) (mr_buffer r)). sint b \<noteq> t"
    using sint_eq_nonneg by blast
  then have "fst (MemoryReader_read_strz_scan t 0 r) = Inl Underflow"
    by (rule MemoryReader_scan_no_terminator)
  then show "fst (MemoryReader_read_strz t r) = Inl Underflow"
    by (simp add: MemoryReader_read_strz_fail)
next
  assume "\<forall>b \<in> set (drop (s_pos (r_buffer rd)) (s_content (r_buffer rd))). uint b \<noteq> t"
  with assms
  have "\<forall>b \<in> set (drop (s_pos (r_buffer rd)) (s_content (r_buffer rd))). sint b \<noteq> t"
    using sint_eq_nonneg by blast
  then have "fst (Reader_read_strz_scan t 0 rd) = Inl Underflow"
    by (rule Reader_scan_no_terminator)
  then show "fst (Reader_read_strz t rd) = Inl Underflow"
    by (rule Reader_read_strz_fail)
qed

theorem C8_no_terminator_underflow_witness:
  "fst (MemoryReader_read_strz 0 \<lparr>mr_buffer = [0x00, 0x61, 0x62], mr_endian = Little, mr_offset = 1\<rparr>)
     = Inl Underflow
   \<and> fst (Reader_read_strz 0 \<lparr>r_buffer = \<lparr>s_content = [0x00, 0x61, 0x62], s_pos = 1\<rparr>,
                              r_endian = Little\<rparr>)
     = Inl Underflow"
proof -
  let ?r = "\<lparr>mr_buffer = [0x00, 0x61, 0x62 :: byte], mr_endian = Little, mr_offset = 1\<rparr>"
  let ?rd = "\<lparr>r_buffer = \<lparr>s_content = [0x00, 0x61, 0x62 :: byte], s_pos = 1\<rparr>,
              r_endian = Little\<rparr>"
  have h0: "(0::int) \<le> 0" by simp
  have h1: "\<forall>b \<in> set (drop (nat (mr_offset ?r)) (mr_buffer ?r)). uint b \<noteq> 0"
    by simp
  have h2: "\<forall>b \<in> set (drop (s_pos (r_buffer ?rd)) (s_content (r_buffer ?rd))). uint b \<noteq> 0"
    by simp
  from C8_no_terminator_underflow [OF h0, of ?r ?rd] h1 h2 show ?thesis by blast
qed

text \<open>
  C10. For every terminator \<open>t\<close> with \<open>128 \<le> t \<le> 255\<close>, \<open>read_strz(t)\<close> never stops at a
  byte equal to \<open>t\<close>: each byte is compared as a signed 8-bit integer, so the scan runs
  to the end of the data and the call fails with Underflow, whatever the data holds.
  From a cursor at or after 0 the in-memory reader is left with its cursor one past the
  end of the data.
\<close>

theorem C10_high_terminator_never_found:
  assumes "128 \<le> t" and "t \<le> 255"
  shows "fst (MemoryReader_read_strz t r) = Inl Underflow
       \<and> (0 \<le> mr_offset r \<longrightarrow>
            snd (MemoryReader_read_strz t r)
              = r\<lparr>mr_offset := max (mr_offset r) (int (length (mr_buffer r))) + 1\<rparr>)
       \<and> fst (Reader_read_strz t rd) = Inl Underflow"
proof -
  from assms have out: "127 < t \<or> t < - 128" by simp
  then have f: "fst (MemoryReader_read_strz_scan t 0 r) = Inl Underflow"
    by (rule MemoryReader_scan_unreachable)
  then have a: "fst (MemoryReader_read_strz t r) = Inl Underflow"
    and s: "snd (MemoryReader_read_strz t r) = snd (MemoryReader_read_strz_scan t 0 r)"
    by (simp_all add: MemoryReader_read_strz_fail)
  have b: "snd (MemoryReader_read_strz t r)
         = r\<lparr>mr_offset := max (mr_offset r) (int (length (mr_buffer r))) + 1\<rparr>"
    if "0 \<le> mr_offset r"
  proof -
    from f have "MemoryReader_read_strz_scan t 0 r
                   = (Inl Underflow, snd (MemoryReader_read_strz_scan t 0 r))"
      by (simp add: prod_eq_iff)
    from MemoryReader_scan_fail_cursor [OF that this] s show ?thesis by simp
  qed
  have "\<forall>b \<in> set (drop (s_pos (r_buffer rd)) (s_content (r_buffer rd))). sint b \<noteq> t"
  proof
    fix b :: byte
    from sint_byte_range [of b] out show "sint b \<noteq> t" by linarith
  qed
  then have "fst (Reader_read_strz_scan t 0 rd) = Inl Underflow"
    by (rule Reader_scan_no_terminator)
  then have c: "fst (Reader_read_strz t rd) = Inl Underflow"
    by (rule Reader_read_strz_fail)
  from a b c show ?thesis by simp
qed

theorem C10_high_terminator_never_found_witness:
  "MemoryReader_read_strz 255 (MemoryReader_init [0x61, 0xFF, 0x62] Little)
     = (Inl Underflow, \<lparr>mr_buffer = [0x61, 0xFF, 0x62], mr_endian = Little, mr_offset = 4\<rparr>)
   \<and> fst (Reader_read_strz 255 (Reader_init \<lparr>s_content = [0x61, 0xFF, 0x62], s_pos = 0\<rparr> Little))
     = Inl Underflow"
proof -
  have h: "(128::int) \<le> 255" "(255::int) \<le> 255" by simp_all
  from C10_high_terminator_never_found [OF h,
         of "MemoryReader_init [0x61, 0xFF, 0x62] Little"
            "Reader_init \<lparr>s_content = [0x61, 0xFF, 0x62], s_pos = 0\<rparr> Little"]
  show ?thesis by (simp add: MemoryReader_init_def prod_eq_iff)
qed

subsection \<open>Cursor movement of MemoryReader\<close>

lemma unpack_Inr_length: "unpack e f buf = Inr v \<Longrightarrow> length buf = fmt_size f"
  by (auto simp: unpack_def Let_def split: if_splits)

lemma MemoryReader_read_num_Inr:
  assumes "MemoryReader_read_num f r = (Inr v, r')"
  shows "r' = r\<lparr>mr_offset := mr_offset r + int (fmt_size f)\<rparr>
       \<and> mr_offset r + int (fmt_size f) \<le> int (length (mr_buffer r))"
proof -
  let ?buf = "py_slice (mr_buffer r) (mr_offset r) (mr_offset r + int (fmt_size f))"
  from assms have r': "r' = r\<lparr>mr_offset := mr_offset r + int (fmt_size f)\<rparr>"
    and u: "unpack (mr_endian r) f ?buf = Inr v"
    by (simp_all add: MemoryReader_read_num_eq)
  from u have "length ?buf = fmt_size f" by (rule unpack_Inr_length)
  with py_slice_short [of "mr_buffer r" "mr_offset r" "fmt_size f"] fmt_size_pos [of f]
  have "\<not> int (length (mr_buffer r)) - mr_offset r < int (fmt_size f)" by auto
  with r' show ?thesis by simp
qed

lemma MemoryReader_read_strz_Inr:
  assumes "0 \<le> mr_offset r" and "MemoryReader_read_strz t r = (Inr s, r')"
  shows "\<exists>m\<ge>0. r' = r\<lparr>mr_offset := mr_offset r + m + 1\<rparr>
             \<and> mr_offset r + m < int (length (mr_buffer r))"
proof (cases "MemoryReader_read_strz_scan t 0 r")
  case (Pair res r1)
  show ?thesis
  proof (cases res)
    case (Inl e)
    with Pair assms(2) show ?thesis by (simp add: MemoryReader_read_strz_def Let_def)
  next
    case (Inr m)
    with Pair have sc: "MemoryReader_read_strz_scan t 0 r = (Inr m, r1)" by simp
    from MemoryReader_scan_found [OF assms(1) sc]
    have m: "0 \<le> m" and r1: "r1 = r\<lparr>mr_offset := mr_offset r + m + 1\<rparr>"
      and lt: "mr_offset r + m < int (length (mr_buffer r))" by simp_all
    from assms(2) sc r1 have "r' = r\<lparr>mr_offset := mr_offset r + m + 1\<rparr>"
      by (simp add: MemoryReader_read_strz_def MemoryReader_read_str_def
            MemoryReader_read_def MemoryReader_seek_def MemoryReader_tell_def
            MemoryReader_skip_def Let_def split: sum.splits)
    with m lt show ?thesis by blast
  qed
qed

text \<open>
  C4, as the code has it. No operation of the reader checks the cursor against the
  buffer: \<open>seek\<close> stores any offset, and \<open>read\<close>, \<open>read_str\<close> and \<open>skip\<close> add \<open>count\<close> to
  the cursor, whatever the length of the buffer.
\<close>

theorem C4_cursor_counterexample:
  "\<not> (mr_offset (MemoryReader_seek 5 (MemoryReader_init [0x01, 0x02] Little))
        \<le> int (length (mr_buffer (MemoryReader_seek 5 (MemoryReader_init [0x01, 0x02] Little)))))
   \<and> \<not> (0 \<le> mr_offset (MemoryReader_skip (- 1) (MemoryReader_init [0x01, 0x02] Little)))
   \<and> \<not> (mr_offset (snd (MemoryReader_read 3 (MemoryReader_init [0x01, 0x02] Little)))
        \<le> int (length (mr_buffer (snd (MemoryReader_read 3 (MemoryReader_init [0x01, 0x02] Little))))))"
  by (simp add: MemoryReader_seek_def MemoryReader_skip_def MemoryReader_tell_def
        MemoryReader_read_def MemoryReader_init_def Let_def)

text \<open>
  C4, amended. From a cursor with \<open>0 \<le> cursor \<le> length\<close>: \<open>tell\<close> returns the cursor
  and changes nothing; a \<open>read_<W>\<close> or a \<open>read_strz\<close> that returns a value leaves the
  buffer as it was and the cursor within \<open>0..length\<close>; \<open>read(count)\<close>, \<open>read_str(count)\<close>
  and \<open>skip(count)\<close> change only the cursor, to \<open>cursor + count\<close>, and \<open>seek(offset)\<close>
  changes only the cursor, to \<open>offset\<close>, so after these four the cursor is within
  \<open>0..length\<close> exactly when that new value is.
\<close>

theorem C4_cursor_amended:
  assumes "0 \<le> mr_offset r" and "mr_offset r \<le> int (length (mr_buffer r))"
  shows "MemoryReader_tell r = mr_offset r
    \<and> (\<forall>f v r'. MemoryReader_read_num f r = (Inr v, r') \<longrightarrow>
          mr_buffer r' = mr_buffer r \<and> 0 \<le> mr_offset r'
          \<and> mr_offset r' \<le> int (length (mr_buffer r')))
    \<and> (\<forall>t s r'. MemoryReader_read_strz t r = (Inr s, r') \<longrightarrow>
          mr_buffer r' = mr_buffer r \<and> 0 \<le> mr_offset r'
          \<and> mr_offset r' \<le> int (length (mr_buffer r')))
    \<and> snd (MemoryReader_read count r) = r\<lparr>mr_offset := mr_offset r + count\<rparr>
    \<and> snd (MemoryReader_read_str count r) = r\<lparr>mr_offset := mr_offset r + count\<rparr>
    \<and> MemoryReader_skip count r = r\<lparr>mr_offset := mr_offset r + count\<rparr>
    \<and> MemoryReader_seek off r = r\<lparr>mr_offset := off\<rparr>"
proof (intro conjI allI impI)
  show "MemoryReader_tell r = mr_offset r" by (simp add: MemoryReader_tell_def)
next
  fix f v r' assume a: "MemoryReader_read_num f r = (Inr v, r')"
  from MemoryReader_read_num_Inr [OF a] assms(1)
  show "mr_buffer r' = mr_buffer r" "0 \<le> mr_offset r'"
    "mr_offset r' \<le> int (length (mr_buffer r'))" by simp_all
next
  fix t s r' assume a: "MemoryReader_read_strz t r = (Inr s, r')"
  from MemoryReader_read_strz_Inr [OF assms(1) a] assms(1)
  show "mr_buffer r' = mr_buffer r" "0 \<le> mr_offset r'"
    "mr_offset r' \<le> int (length (mr_buffer r'))" by auto
next
  show "snd (MemoryReader_read count r) = r\<lparr>mr_offset := mr_offset r + count\<rparr>"
    by (simp add: MemoryReader_read_def Let_def)
next
  show "snd (MemoryReader_read_str count r) = r\<lparr>mr_offset := mr_offset r + count\<rparr>"
    by (simp add: MemoryReader_read_str_def MemoryReader_read_def Let_def)
next
  show "MemoryReader_skip count r = r\<lparr>mr_offset := mr_offset r + count\<rparr>"
    by (simp add: MemoryReader_skip_def MemoryReader_seek_def MemoryReader_tell_def)
next
  show "MemoryReader_seek off r = r\<lparr>mr_offset := off\<rparr>"
    by (simp add: MemoryReader_seek_def)
qed

theorem C4_cursor_amended_witness:
  "mr_offset (snd (MemoryReader_read_num Fmt_H (MemoryReader_init [0x61, 0x00, 0x62] Little)))
      \<le> int (length [0x61, 0x00, 0x62 :: byte])
   \<and> mr_offset (snd (MemoryReader_read_strz 0 (MemoryReader_init [0x61, 0x00, 0x62] Little)))
      \<le> int (length [0x61, 0x00, 0x62 :: byte])
   \<and> MemoryReader_skip 7 (MemoryReader_init [0x61, 0x00, 0x62] Little)
      = \<lparr>mr_buffer = [0x61, 0x00, 0x62], mr_endian = Little, mr_offset = 7\<rparr>"
proof -
  let ?r = "MemoryReader_init [0x61, 0x00, 0x62] Little"
  have h1: "0 \<le> mr_offset ?r" and h2: "mr_offset ?r \<le> int (length (mr_buffer ?r))"
    and b: "mr_buffer ?r = [0x61, 0x00, 0x62]"
    by (simp_all add: MemoryReader_init_def)
  have n: "MemoryReader_read_num Fmt_H ?r
             = (Inr 97, \<lparr>mr_buffer = [0x61, 0x00, 0x62], mr_endian = Little, mr_offset = 2\<rparr>)"
    by code_simp
  have z: "MemoryReader_read_strz 0 ?r
             = (Inr [97], \<lparr>mr_buffer = [0x61, 0x00, 0x62], mr_endian = Little, mr_offset = 2\<rparr>)"
    by code_simp
  from C4_cursor_amended [OF h1 h2, of 7 0] n z b show ?thesis
    by (simp add: MemoryReader_init_def)
qed

subsection \<open>Writing to the stream\<close>






subsection \<open>UTF-8: decoding what was encoded\<close>

lemma unat_byte_of_nat: "x < 256 \<Longrightarrow> unat (of_nat x :: byte) = x"
  by (simp add: unat_of_nat take_bit_nat_eq_self)

lemma split2: "(c::nat) = c div 64 * 64 + c mod 64"
  by simp

lemma split3: "(c::nat) = c div 4096 * 4096 + c div 64 mod 64 * 64 + c mod 64"
proof -
  have a: "c div 4096 = c div 64 div 64"
    using div_mult2_eq [of c 64 64] by simp
  have "c div 64 = c div 64 div 64 * 64 + c div 64 mod 64" by simp
  then have "c div 64 * 64 = c div 64 div 64 * 4096 + c div 64 mod 64 * 64" by linarith
  moreover have "c = c div 64 * 64 + c mod 64" by simp
  ultimately show ?thesis unfolding a by linarith
qed

lemma split4:
  "(c::nat) = c div 262144 * 262144 + c div 4096 mod 64 * 4096 + c div 64 mod 64 * 64 + c mod 64"
proof -
  have a: "c div 262144 = c div 4096 div 64"
    using div_mult2_eq [of c 4096 64] by simp
  have "c div 4096 = c div 4096 div 64 * 64 + c div 4096 mod 64" by simp
  then have "c div 4096 * 4096 = c div 4096 div 64 * 262144 + c div 4096 mod 64 * 4096"
    by linarith
  with split3 [of c] show ?thesis unfolding a by linarith
qed

lemma decode1:
  assumes "unat b0 < 0x80"
  shows "utf8_decode (b0 # rest) = decoded (unat b0) (utf8_decode rest)"
  using assms by simp

lemma decode2:
  assumes "unat b0 = 0xC0 + h" "h < 32" "unat b1 = 0x80 + l" "l < 64" "0x80 \<le> h * 64 + l"
  shows "utf8_decode (b0 # b1 # rest) = decoded (h * 64 + l) (utf8_decode rest)"
  using assms by (simp add: is_cont_def cont_bits_def)

lemma decode3:
  assumes "unat b0 = 0xE0 + h" "h < 16" "unat b1 = 0x80 + m" "m < 64"
    "unat b2 = 0x80 + l" "l < 64"
    "0x800 \<le> h * 4096 + m * 64 + l" "\<not> is_surrogate (h * 4096 + m * 64 + l)"
  shows "utf8_decode (b0 # b1 # b2 # rest) = decoded (h * 4096 + m * 64 + l) (utf8_decode rest)"
  using assms by (simp add: is_cont_def cont_bits_def)

lemma decode4:
  assumes "unat b0 = 0xF0 + h" "h < 8" "unat b1 = 0x80 + m" "m < 64"
    "unat b2 = 0x80 + k" "k < 64" "unat b3 = 0x80 + l" "l < 64"
    "0x10000 \<le> h * 262144 + m * 4096 + k * 64 + l"
    "h * 262144 + m * 4096 + k * 64 + l \<le> 0x10FFFF"
  shows "utf8_decode (b0 # b1 # b2 # b3 # rest)
           = decoded (h * 262144 + m * 4096 + k * 64 + l) (utf8_decode rest)"
  using assms by (simp add: is_cont_def cont_bits_def)


lemma decode_encode_cp:
  assumes ns: "\<not> is_surrogate c" and le: "c \<le> 0x10FFFF"
  shows "utf8_decode (encode_cp c @ rest) = decoded c (utf8_decode rest)"
proof -
  have m: "c mod 64 < 64" "c div 64 mod 64 < 64" "c div 4096 mod 64 < 64" by simp_all
  have u1: "unat (of_nat (0x80 + c mod 64) :: byte) = 0x80 + c mod 64"
    and u2: "unat (of_nat (0x80 + c div 64 mod 64) :: byte) = 0x80 + c div 64 mod 64"
    and u3: "unat (of_nat (0x80 + c div 4096 mod 64) :: byte) = 0x80 + c div 4096 mod 64"
    by (rule unat_byte_of_nat, use m in linarith)+
  consider (one) "c < 0x80" | (two) "\<not> c < 0x80" "c < 0x800"
    | (three) "\<not> c < 0x80" "\<not> c < 0x800" "c < 0x10000"
    | (four) "\<not> c < 0x80" "\<not> c < 0x800" "\<not> c < 0x10000"
    by linarith
  then show ?thesis
  proof cases
    case one
    then have "unat (of_nat c :: byte) = c" by (simp add: unat_byte_of_nat)
    with one show ?thesis by (simp add: encode_cp_def)
  next
    case two
    then have h: "c div 64 < 32" by simp
    have u0: "unat (of_nat (0xC0 + c div 64) :: byte) = 0xC0 + c div 64"
      by (rule unat_byte_of_nat) (use h in linarith)
    have enc: "encode_cp c = [of_nat (0xC0 + c div 64), of_nat (0x80 + c mod 64)]"
      by (simp only: encode_cp_def two if_True if_False)
    have v: "c div 64 * 64 + c mod 64 = c" by simp
    from two have lo: "0x80 \<le> c div 64 * 64 + c mod 64" unfolding v by simp
    from decode2 [OF u0 h u1 m(1) lo, of rest] show ?thesis
      by (simp only: enc v append_Cons append_Nil)
  next
    case three
    then have h: "c div 4096 < 16" by simp
    have u0: "unat (of_nat (0xE0 + c div 4096) :: byte) = 0xE0 + c div 4096"
      by (rule unat_byte_of_nat) (use h in linarith)
    have enc: "encode_cp c = [of_nat (0xE0 + c div 4096), of_nat (0x80 + c div 64 mod 64),
                              of_nat (0x80 + c mod 64)]"
      by (simp only: encode_cp_def three if_True if_False)
    note v = split3 [of c, symmetric]
    from three have lo: "0x800 \<le> c div 4096 * 4096 + c div 64 mod 64 * 64 + c mod 64"
      unfolding v by simp
    from ns have ns': "\<not> is_surrogate (c div 4096 * 4096 + c div 64 mod 64 * 64 + c mod 64)"
      unfolding v .
    from decode3 [OF u0 h u2 m(2) u1 m(1) lo ns', of rest] show ?thesis
      by (simp only: enc v append_Cons append_Nil)
  next
    case four
    with le have h: "c div 262144 < 8" by simp
    have u0: "unat (of_nat (0xF0 + c div 262144) :: byte) = 0xF0 + c div 262144"
      by (rule unat_byte_of_nat) (use h in linarith)
    have enc: "encode_cp c = [of_nat (0xF0 + c div 262144), of_nat (0x80 + c div 4096 mod 64),
                              of_nat (0x80 + c div 64 mod 64), of_nat (0x80 + c mod 64)]"
      by (simp only: encode_cp_def four if_True if_False)
    note v = split4 [of c, symmetric]
    from four have lo: "0x10000 \<le> c div 262144 * 262144 + c div 4096 mod 64 * 4096
                          + c div 64 mod 64 * 64 + c mod 64"
      unfolding v by simp
    from le have hi: "c div 262144 * 262144 + c div 4096 mod 64 * 4096
                        + c div 64 mod 64 * 64 + c mod 64 \<le> 0x10FFFF"
      unfolding v .
    from decode4 [OF u0 h u3 m(3) u2 m(2) u1 m(1) lo hi, of rest] show ?thesis
      by (simp only: enc v append_Cons append_Nil)
  qed
qed

lemma utf8_roundtrip: "utf8_encode s = Inr bs \<Longrightarrow> utf8_decode bs = Inr s"
proof (induction s arbitrary: bs)
  case Nil
  then show ?case by simp
next
  case (Cons c cs)
  from Cons.prems obtain bs' where ok: "\<not> is_surrogate c" "c \<le> 0x10FFFF"
    and e: "utf8_encode cs = Inr bs'" and bs: "bs = encode_cp c @ bs'"
    by (auto split: if_splits sum.splits)
  from Cons.IH [OF e] have "utf8_decode bs' = Inr cs" .
  with decode_encode_cp [OF ok, of bs'] bs show ?case by (simp add: decoded_def)
qed

subsection \<open>A scan that finds its terminator\<close>

lemma MemoryReader_scan_finds:
  assumes "mr_buffer r = pre @ xs @ tb # post" and "mr_offset r = int (length pre)"
    and "\<forall>b \<in> set xs. sint b \<noteq> t" and "sint tb = t"
  shows "MemoryReader_read_strz_scan t n r
           = (Inr (n + int (length xs)),
              r\<lparr>mr_offset := int (length pre) + int (length xs) + 1\<rparr>)"
  using assms
proof (induction xs arbitrary: pre n r)
  case Nil
  then have "0 \<le> mr_offset r" "mr_offset r < int (length (mr_buffer r))"
    and "mr_buffer r ! nat (mr_offset r) = tb"
    by simp_all
  with Nil.prems(2,4) show ?case
    by (subst MemoryReader_scan_step) (simp add: MemoryReader_read_i8_at)
next
  case (Cons x xs)
  let ?r' = "r\<lparr>mr_offset := mr_offset r + 1\<rparr>"
  from Cons.prems have lt: "0 \<le> mr_offset r" "mr_offset r < int (length (mr_buffer r))"
    and at: "mr_buffer r ! nat (mr_offset r) = x"
    by (simp_all add: nth_append)
  from Cons.prems have ne: "sint x \<noteq> t" by simp
  have "MemoryReader_read_strz_scan t (n + 1) ?r'
          = (Inr (n + 1 + int (length xs)),
             ?r'\<lparr>mr_offset := int (length (pre @ [x])) + int (length xs) + 1\<rparr>)"
    using Cons.prems by (intro Cons.IH) simp_all
  with lt at ne show ?case
    by (subst MemoryReader_scan_step) (simp add: MemoryReader_read_i8_at)
qed

lemma sint_byte_zero: "sint (b :: byte) = 0 \<longleftrightarrow> b = 0"
  using sint_eq_nonneg [of 0 b] by (auto simp: uint_0_iff)

lemma MemoryWriter_write_i8_zero:
  "MemoryWriter_write_i8 0 w = (Inr (), w\<lparr>mw_buffer := mw_buffer w @ [0]\<rparr>)"
  by (cases "mw_endian w")
     (simp_all add: MemoryWriter_write_i8_def MemoryWriter_write_def pack_def in_range_def
        fmt_min_def fmt_max_def)

lemma py_slice_prefix: "py_slice (xs @ ys) 0 (int (length xs)) = xs"
  by (simp add: py_slice_def py_index_def Let_def)

text \<open>
  C3. For every string \<open>s\<close> whose UTF-8 encoding \<open>bs\<close> holds no zero byte: \<open>write_strz(s)\<close>
  on a fresh writer produces \<open>bs\<close> followed by one zero byte, and \<open>read_strz()\<close> over those
  bytes from offset 0 returns \<open>s\<close> and leaves the cursor at \<open>len(bs) + 1\<close>.
\<close>

theorem C3_strz_roundtrip:
  assumes "utf8_encode s = Inr bs" and "0 \<notin> set bs"
  shows "MemoryWriter_write_strz s (MemoryWriter_init e)
           = (Inr (), \<lparr>mw_endian = e, mw_buffer = bs @ [0]\<rparr>)
       \<and> MemoryReader_read_strz 0 (MemoryReader_init (bs @ [0]) e')
           = (Inr s, \<lparr>mr_buffer = bs @ [0], mr_endian = e',
                       mr_offset = int (length bs) + 1\<rparr>)"
proof
  from assms(1) show "MemoryWriter_write_strz s (MemoryWriter_init e)
           = (Inr (), \<lparr>mw_endian = e, mw_buffer = bs @ [0]\<rparr>)"
    by (simp add: MemoryWriter_write_strz_def MemoryWriter_write_i8_zero
          MemoryWriter_write_def MemoryWriter_init_def)
next
  let ?r = "MemoryReader_init (bs @ [0]) e'"
  from assms(2) have nz: "\<forall>b \<in> set bs. sint b \<noteq> 0"
    by (metis sint_byte_zero)
  have b: "mr_buffer ?r = [] @ bs @ 0 # []" and o: "mr_offset ?r = int (length ([] :: byte list))"
    and z: "sint (0 :: byte) = 0"
    by (simp_all add: MemoryReader_init_def)
  from MemoryReader_scan_finds [OF b o nz z, of 0]
  have sc: "MemoryReader_read_strz_scan 0 0 ?r
          = (Inr (int (length bs)), ?r\<lparr>mr_offset := int (length bs) + 1\<rparr>)"
    by simp
  from assms(1) have dec: "utf8_decode bs = Inr s" by (rule utf8_roundtrip)
  show "MemoryReader_read_strz 0 ?r
           = (Inr s, \<lparr>mr_buffer = bs @ [0], mr_endian = e',
                       mr_offset = int (length bs) + 1\<rparr>)"
    unfolding MemoryReader_read_strz_def Let_def sc
    by (simp add: MemoryReader_read_str_def MemoryReader_read_def MemoryReader_seek_def
          MemoryReader_tell_def MemoryReader_skip_def MemoryReader_init_def
          py_slice_prefix dec)
qed

theorem C3_strz_roundtrip_witness:
  "MemoryWriter_write_strz [0x61, 0x62, 0x63] (MemoryWriter_init Little)
     = (Inr (), \<lparr>mw_endian = Little, mw_buffer = [0x61, 0x62, 0x63, 0x00]\<rparr>)
   \<and> MemoryReader_read_strz 0 (MemoryReader_init [0x61, 0x62, 0x63, 0x00] Little)
     = (Inr [0x61, 0x62, 0x63],
        \<lparr>mr_buffer = [0x61, 0x62, 0x63, 0x00], mr_endian = Little, mr_offset = 4\<rparr>)"
proof -
  have h1: "utf8_encode [0x61, 0x62, 0x63] = Inr [0x61, 0x62, 0x63]"
    by (simp add: is_surrogate_def encode_cp_def)
  have h2: "(0 :: byte) \<notin> set [0x61, 0x62, 0x63]" by simp
  from C3_strz_roundtrip [OF h1 h2, of Little Little] show ?thesis by simp
qed

subsection \<open>The XOR transform\<close>

lemma xor_byte_range:
  assumes "0 \<le> k" and "k < 256"
  shows "0 \<le> uint (b :: byte) XOR k \<and> uint b XOR k < 256"
proof -
  have "uint b < 2 ^ 8" using uint_lt2p [of b] by simp
  moreover from assms have "k < 2 ^ 8" by simp
  ultimately have "uint b XOR k < 2 ^ 8" by (intro XOR_upper) simp_all
  moreover from assms have "0 \<le> uint b XOR k" by simp
  ultimately show ?thesis by simp
qed

lemma py_bytes_xor:
  assumes "0 \<le> k" and "k < 256"
  shows "py_bytes (xor_ints k bs) = Inr (map (\<lambda>b. word_of_int (uint b XOR k)) bs)"
  using xor_byte_range [OF assms]
  by (simp add: py_bytes_def xor_ints_def list_all_iff comp_def)

lemma xor_byte_twice:
  assumes "0 \<le> k" and "k < 256"
  shows "word_of_int (uint (word_of_int (uint (b :: byte) XOR k) :: byte) XOR k) = b"
proof -
  from xor_byte_range [OF assms, of b]
  have "uint (word_of_int (uint b XOR k) :: byte) = uint b XOR k"
    by (simp add: uint_word_of_int)
  moreover have "(uint b XOR k) XOR k = uint b"
    by (simp add: xor.assoc)
  ultimately show ?thesis by simp
qed

lemma py_bytes_xor_twice:
  assumes "0 \<le> k" and "k < 256"
  shows "py_bytes (xor_ints k (map (\<lambda>b. word_of_int (uint b XOR k)) bs)) = Inr bs"
  by (simp add: py_bytes_xor [OF assms] comp_def xor_byte_twice [OF assms])

lemma Reader_read_whole:
  "Reader_read (int (length bs)) (Reader_init \<lparr>s_content = bs, s_pos = 0\<rparr> e)
     = (bs, Reader_init \<lparr>s_content = bs, s_pos = length bs\<rparr> e)"
  by (simp add: Reader_read_def Reader_init_def stream_read_def Let_def)

text \<open>
  C7. For every byte span \<open>b\<close> and every single-byte key \<open>k\<close>, the byte-wise XOR
  transform applied twice returns \<open>b\<close>; so \<open>read_str_xor(len, k)\<close> over the span that
  XOR-encodes the UTF-8 bytes of a string \<open>s\<close> with \<open>k\<close> returns \<open>s\<close>.
\<close>

theorem C7_xor_involution:
  assumes "0 \<le> k" and "k < 256"
  shows "(\<exists>b'. py_bytes (xor_ints k b) = Inr b' \<and> py_bytes (xor_ints k b') = Inr b)
       \<and> (\<forall>s bs enc. utf8_encode s = Inr bs \<and> py_bytes (xor_ints k bs) = Inr enc \<longrightarrow>
            Reader_read_str_xor (int (length bs)) k
                (Reader_init \<lparr>s_content = enc, s_pos = 0\<rparr> e)
              = (Inr s, Reader_init \<lparr>s_content = enc, s_pos = length enc\<rparr> e))"
proof (intro conjI allI impI)
  show "\<exists>b'. py_bytes (xor_ints k b) = Inr b' \<and> py_bytes (xor_ints k b') = Inr b"
    using py_bytes_xor [OF assms, of b] py_bytes_xor_twice [OF assms, of b] by blast
next
  fix s bs enc
  assume a: "utf8_encode s = Inr bs \<and> py_bytes (xor_ints k bs) = Inr enc"
  then have enc: "enc = map (\<lambda>b. word_of_int (uint b XOR k)) bs"
    by (simp add: py_bytes_xor [OF assms])
  then have len: "length enc = length bs" by simp
  have bk: "py_bytes (xor_ints k enc) = Inr bs"
    unfolding enc by (rule py_bytes_xor_twice [OF assms])
  from a have dec: "utf8_decode bs = Inr s" by (simp add: utf8_roundtrip)
  from Reader_read_whole [of enc e] len
  have rd: "Reader_read (int (length bs)) (Reader_init \<lparr>s_content = enc, s_pos = 0\<rparr> e)
               = (enc, Reader_init \<lparr>s_content = enc, s_pos = length enc\<rparr> e)"
    by simp
  show "Reader_read_str_xor (int (length bs)) k
           (Reader_init \<lparr>s_content = enc, s_pos = 0\<rparr> e)
         = (Inr s, Reader_init \<lparr>s_content = enc, s_pos = length enc\<rparr> e)"
    by (simp add: Reader_read_str_xor_def rd bk dec)
qed

theorem C7_xor_involution_witness:
  "py_bytes (xor_ints 0x5A [0x61, 0x62, 0x63]) = Inr [0x3B, 0x38, 0x39]
   \<and> py_bytes (xor_ints 0x5A [0x3B, 0x38, 0x39]) = Inr [0x61, 0x62, 0x63]
   \<and> Reader_read_str_xor 3 0x5A (Reader_init \<lparr>s_content = [0x3B, 0x38, 0x39], s_pos = 0\<rparr> Little)
       = (Inr [0x61, 0x62, 0x63],
          Reader_init \<lparr>s_content = [0x3B, 0x38, 0x39], s_pos = 3\<rparr> Little)"
proof -
  have h: "(0::int) \<le> 0x5A" "(0x5A::int) < 256" by simp_all
  have e1: "utf8_encode [0x61, 0x62, 0x63] = Inr [0x61, 0x62, 0x63]"
    by (simp add: is_surrogate_def encode_cp_def)
  have e2: "py_bytes (xor_ints 0x5A [0x61, 0x62, 0x63]) = Inr [0x3B, 0x38, 0x39]"
    by code_simp
  note t = C7_xor_involution [OF h, of "[0x61, 0x62, 0x63]" Little]
  from t e2 have x: "py_bytes (xor_ints 0x5A [0x3B, 0x38, 0x39]) = Inr [0x61, 0x62, 0x63]"
    by auto
  from t have "utf8_encode [0x61, 0x62, 0x63] = Inr [0x61, 0x62, 0x63]
        \<and> py_bytes (xor_ints 0x5A [0x61, 0x62, 0x63]) = Inr [0x3B, 0x38, 0x39] \<longrightarrow>
      Reader_read_str_xor (int (length [0x61, 0x62, 0x63 :: byte])) 0x5A
          (Reader_init \<lparr>s_content = [0x3B, 0x38, 0x39], s_pos = 0\<rparr> Little)
        = (Inr [0x61, 0x62, 0x63],
           Reader_init \<lparr>s_content = [0x3B, 0x38, 0x39], s_pos = length [0x3B, 0x38, 0x39 :: byte]\<rparr> Little)"
    by blast
  with e1 e2 x show ?thesis by (simp add: numeral_3_eq_3)
qed

end
